theory Spec2Isabelle
  imports Main
begin

section \<open>Strings\<close>

text \<open>
  Python strings are modelled as \<^typ>\<open>string\<close>. The line feed character is written
  \<open>nl\<close>; \<open>str_join sep xs\<close> is Python's \<^verbatim>\<open>sep.join(xs)\<close>.
\<close>

abbreviation nl :: char where
  "nl \<equiv> CHR 0x0A"

fun str_join :: "string \<Rightarrow> string list \<Rightarrow> string" where
  "str_join sep [] = []"
| "str_join sep [x] = x"
| "str_join sep (x # y # ys) = x @ sep @ str_join sep (y # ys)"

section \<open>Syntax trees\<close>

text \<open>
  The trees are those of Python's \<^verbatim>\<open>ast\<close> module, cut down to what
  \<^verbatim>\<open>CodeSummarizer\<close> reads. A constant carries its value; for the kinds whose
  \<^verbatim>\<open>str()\<close> is floating-point or escape formatting (float, complex, bytes) the
  text that \<^verbatim>\<open>str()\<close> yields is carried instead of the value.
\<close>

datatype py_constant =
    CNone
  | CBool bool
  | CInt int
  | CStr string
  | CEllipsis
  | CFloat string
  | CComplex string
  | CBytes string

datatype operator =
    Add | Sub | Mult | MatMult | Div | Mod | Pow_op
  | LShift | RShift | BitOr | BitXor | BitAnd | FloorDiv

text \<open>
  The expression classes that \<^verbatim>\<open>get_name\<close> tells apart have a constructor each;
  every other class of \<^verbatim>\<open>ast.expr\<close> is \<open>OtherExpr\<close>, tagged with its class and
  holding its sub-expressions. A call's keyword arguments are never read and are left out.
\<close>

datatype expr_kind =
    BoolOp | NamedExpr | UnaryOp | Lambda | IfExp | Dict | Set_expr | ListComp | SetComp
  | DictComp | GeneratorExp | Await | Yield | YieldFrom | Compare | FormattedValue
  | JoinedStr | Subscript | Starred | List_expr | Tuple | Slice

datatype expr =
    Name string
  | Attribute expr string
  | Call expr "expr list"
  | Constant py_constant
  | BinOp expr operator expr
  | OtherExpr expr_kind "expr list"

text \<open>
  Of a function's \<^verbatim>\<open>arguments\<close> node only the parameter names are kept, one field
  per parameter group of the \<^verbatim>\<open>ast\<close> node.
\<close>

record arguments =
  posonlyargs :: "string list"
  args :: "string list"
  vararg :: "string option"
  kwonlyargs :: "string list"
  kwarg :: "string option"

text \<open>
  Statements. A compound statement holds its blocks in the order of the node's
  \<^verbatim>\<open>_fields\<close>, which is the order \<^verbatim>\<open>generic_visit\<close> walks them in. \<open>Try\<close> holds
  its body, the bodies of its handlers, its \<^verbatim>\<open>orelse\<close> and its \<^verbatim>\<open>finalbody\<close>;
  \<open>Match\<close> holds the bodies of its cases. Expressions that the summarizer never reads
  (decorators, annotations, base classes, context managers, the test of a \<^verbatim>\<open>while\<close>)
  are left out: an expression has no statement below it, so walking it emits nothing.
  \<open>SimpleStmt\<close> is a statement with no block below it, tagged with its class.
\<close>

datatype simple_kind =
    Delete | AugAssign | AnnAssign | TypeAlias | Raise | Assert | Import | ImportFrom
  | Global | Nonlocal | Pass | Break | Continue

datatype stmt =
    FunctionDef string arguments "stmt list"
  | AsyncFunctionDef string arguments "stmt list"
  | ClassDef string "stmt list"
  | Return "expr option"
  | Assign "expr list" expr
  | For expr expr "stmt list" "stmt list"
  | AsyncFor expr expr "stmt list" "stmt list"
  | While "stmt list" "stmt list"
  | If_stmt expr "stmt list" "stmt list"
  | With "stmt list"
  | AsyncWith "stmt list"
  | Match "stmt list list"
  | Try "stmt list" "stmt list list" "stmt list" "stmt list"
  | TryStar "stmt list" "stmt list list" "stmt list" "stmt list"
  | Expr expr
  | SimpleStmt simple_kind

section \<open>Name rendering\<close>

text \<open>
  \<^verbatim>\<open>str(node.value)\<close> of a constant. Where the interpreter refuses the conversion (an
  integer beyond the digit limit of \<^verbatim>\<open>str\<close>), the visit ends with an exception; that
  is a matter of the pipeline, below.
\<close>

fun str_nat :: "nat \<Rightarrow> string" where
  "str_nat n =
     (if n < 10 then [char_of (48 + n)]
      else str_nat (n div 10) @ [char_of (48 + n mod 10)])"

declare str_nat.simps [simp del]

definition str_int :: "int \<Rightarrow> string" where
  "str_int i = (if i < 0 then CHR ''-'' # str_nat (nat (- i)) else str_nat (nat i))"

fun py_str :: "py_constant \<Rightarrow> string" where
  "py_str CNone = ''None''"
| "py_str (CBool b) = (if b then ''True'' else ''False'')"
| "py_str (CInt i) = str_int i"
| "py_str (CStr s) = s"
| "py_str CEllipsis = ''Ellipsis''"
| "py_str (CFloat s) = s"
| "py_str (CComplex s) = s"
| "py_str (CBytes s) = s"

text \<open>\<^verbatim>\<open>get_operator\<close>: a dictionary lookup with default \<^verbatim>\<open>"?"\<close>.\<close>

fun get_operator :: "operator \<Rightarrow> string" where
  "get_operator Add = ''+''"
| "get_operator Sub = ''-''"
| "get_operator Mult = ''*''"
| "get_operator Div = ''/''"
| "get_operator _ = ''?''"

text \<open>\<^verbatim>\<open>get_name\<close>: the chain of \<^verbatim>\<open>isinstance\<close> tests, with its fall-through.\<close>

fun get_name :: "expr \<Rightarrow> string" where
  "get_name (Name ident) = ident"
| "get_name (Attribute v attr) = get_name v @ ''.'' @ attr"
| "get_name (Call func as) = get_name func"
| "get_name (Constant c) = py_str c"
| "get_name (BinOp l oper r) =
     get_name l @ '' '' @ get_operator oper @ '' '' @ get_name r"
| "get_name (OtherExpr k es) = ''...''"

text \<open>
  \<^verbatim>\<open>get_name\<close> is also called on a field that may hold \<^verbatim>\<open>None\<close> (the value of a
  bare \<^verbatim>\<open>return\<close>); \<^verbatim>\<open>None\<close> passes every \<^verbatim>\<open>isinstance\<close> test and gets the
  placeholder.
\<close>

fun get_name_opt :: "expr option \<Rightarrow> string" where
  "get_name_opt None = ''...''"
| "get_name_opt (Some e) = get_name e"

section \<open>The body digest\<close>

text \<open>
  One round of the loop of \<^verbatim>\<open>summarize_function_body\<close>: the statement and the list
  \<^verbatim>\<open>important_lines\<close> so far, giving the list after the round.
\<close>

fun body_step :: "string list \<Rightarrow> stmt \<Rightarrow> string list" where
  "body_step ls (Assign targets v) =
     ls @ [str_join '', '' (map get_name targets) @ '' = '' @ get_name v]"
| "body_step ls (If_stmt test body orelse) = ls @ [''if '' @ get_name test @ '': ...'']"
| "body_step ls (For target iter body orelse) =
     ls @ [''for '' @ get_name target @ '' in '' @ get_name iter @ '': ...'']"
| "body_step ls (Expr (Call func as)) =
     ls @ [get_name func @ ''('' @ str_join '', '' (map get_name as) @ '')'']"
| "body_step ls (Return v) = ls @ [''return '' @ get_name_opt v]"
| "body_step ls _ = ls"

definition important_lines :: "stmt list \<Rightarrow> string list" where
  "important_lines body = foldl body_step [] body"

definition summarize_function_body :: "stmt list \<Rightarrow> string" where
  "summarize_function_body body = str_join '' | '' (important_lines body)"

text \<open>The entry that \<^verbatim>\<open>visit_FunctionDef\<close> builds, and that of \<^verbatim>\<open>visit_ClassDef\<close>.\<close>

definition func_summary :: "string \<Rightarrow> arguments \<Rightarrow> stmt list \<Rightarrow> string" where
  "func_summary name a body =
     (let func_summary = ''Function: '' @ name @ ''('' @ str_join '', '' (args a) @ '')'';
          func_body_summary = summarize_function_body body
      in if func_body_summary \<noteq> [] then func_summary @ [nl] @ ''  Body: '' @ func_body_summary
         else func_summary)"

definition class_summary :: "string \<Rightarrow> string" where
  "class_summary name = ''Class: '' @ name"

section \<open>The visitor\<close>

text \<open>
  \<^verbatim>\<open>CodeSummarizer\<close> has one field, the list \<^verbatim>\<open>summary\<close>; each function below takes
  the list and returns it as the visit leaves it. \<open>visit\<close> is \<^verbatim>\<open>NodeVisitor.visit\<close>: it
  calls \<^verbatim>\<open>visit_FunctionDef\<close> or \<^verbatim>\<open>visit_ClassDef\<close> for those two classes and
  \<^verbatim>\<open>generic_visit\<close> for every other, which walks the node's blocks in field order.
\<close>

fun visit :: "stmt \<Rightarrow> string list \<Rightarrow> string list"
  and visit_stmts :: "stmt list \<Rightarrow> string list \<Rightarrow> string list"
  and visit_blocks :: "stmt list list \<Rightarrow> string list \<Rightarrow> string list"
where
  "visit (FunctionDef name a body) summary =
     visit_stmts body (summary @ [func_summary name a body])"
| "visit (ClassDef name body) summary =
     visit_stmts body (summary @ [class_summary name])"
| "visit (AsyncFunctionDef name a body) summary = visit_stmts body summary"
| "visit (For target iter body orelse) summary =
     visit_stmts orelse (visit_stmts body summary)"
| "visit (AsyncFor target iter body orelse) summary =
     visit_stmts orelse (visit_stmts body summary)"
| "visit (While body orelse) summary = visit_stmts orelse (visit_stmts body summary)"
| "visit (If_stmt test body orelse) summary =
     visit_stmts orelse (visit_stmts body summary)"
| "visit (With body) summary = visit_stmts body summary"
| "visit (AsyncWith body) summary = visit_stmts body summary"
| "visit (Match cases) summary = visit_blocks cases summary"
| "visit (Try body handlers orelse finalbody) summary =
     visit_stmts finalbody
       (visit_stmts orelse (visit_blocks handlers (visit_stmts body summary)))"
| "visit (TryStar body handlers orelse finalbody) summary =
     visit_stmts finalbody
       (visit_stmts orelse (visit_blocks handlers (visit_stmts body summary)))"
| "visit (Return v) summary = summary"
| "visit (Assign targets v) summary = summary"
| "visit (Expr e) summary = summary"
| "visit (SimpleStmt k) summary = summary"
| "visit_stmts [] summary = summary"
| "visit_stmts (s # ss) summary = visit_stmts ss (visit s summary)"
| "visit_blocks [] summary = summary"
| "visit_blocks (b # bs) summary = visit_blocks bs (visit_stmts b summary)"

text \<open>
  The visit of the \<^verbatim>\<open>Module\<close> node, from a fresh \<^verbatim>\<open>CodeSummarizer\<close>, and
  \<^verbatim>\<open>get_summary\<close>.
\<close>

definition visit_Module :: "stmt list \<Rightarrow> string list" where
  "visit_Module body = visit_stmts body []"

definition get_summary :: "string list \<Rightarrow> string" where
  "get_summary summary = str_join [nl] summary"

section \<open>The lexical reducer\<close>

text \<open>
  A token as \<^verbatim>\<open>tokenize.generate_tokens\<close> yields it: its type, its text, and the row
  and column of its start and of its end. Rows and columns are Python integers.
\<close>

datatype toktype =
    ENDMARKER | NAME | NUMBER | STRING | NEWLINE | INDENT | DEDENT | OP
  | COMMENT | NL | ERRORTOKEN | FSTRING_START | FSTRING_MIDDLE | FSTRING_END

record token =
  tok_type :: toktype
  tok_string :: string
  srow :: int
  scol :: int
  erow :: int
  ecol :: int

text \<open>The local variables of the loop of \<^verbatim>\<open>tokenize_code\<close>; \<open>output_buf\<close> is its list
  \<^verbatim>\<open>output\<close>.\<close>

record reducer =
  output_buf :: "string list"
  prev_toktype :: toktype
  last_lineno :: int
  last_col :: int

definition reducer_init :: reducer where
  "reducer_init = \<lparr>output_buf = [], prev_toktype = INDENT, last_lineno = - 1, last_col = 0\<rparr>"

text \<open>
  One round of the loop. The two \<^verbatim>\<open>continue\<close> statements leave every variable as it
  was; otherwise the column is reset on a new row, the gap is padded with spaces, the
  token's text is appended and the three trackers are set from the token.
\<close>

definition reduce_step :: "reducer \<Rightarrow> token \<Rightarrow> reducer" where
  "reduce_step s t =
     (if tok_type t = COMMENT then s
      else if tok_type t = STRING \<and> prev_toktype s = INDENT then s
      else
        let last_col1 = (if srow t > last_lineno s then 0 else last_col s);
            output1 = (if scol t > last_col1
                       then output_buf s @ [replicate (nat (scol t - last_col1)) CHR '' '']
                       else output_buf s)
        in \<lparr>output_buf = output1 @ [tok_string t], prev_toktype = tok_type t,
            last_lineno = erow t, last_col = ecol t\<rparr>)"

definition reduce_loop :: "token list \<Rightarrow> reducer" where
  "reduce_loop toks = foldl reduce_step reducer_init toks"

definition reduce_tokens :: "token list \<Rightarrow> string" where
  "reduce_tokens toks = concat (output_buf (reduce_loop toks))"

section \<open>Exceptions and the pipeline\<close>

text \<open>
  An exception is its class, as far as the two \<^verbatim>\<open>except\<close> clauses tell classes apart,
  and the text \<^verbatim>\<open>str(e)\<close>. \<open>SyntaxError\<close> stands for that class and its subclasses,
  \<open>OtherException\<close> for every other subclass of \<^verbatim>\<open>Exception\<close>, and \<open>NonException\<close>
  for a \<^verbatim>\<open>BaseException\<close> outside \<^verbatim>\<open>Exception\<close> (\<^verbatim>\<open>KeyboardInterrupt\<close>,
  \<^verbatim>\<open>SystemExit\<close>). A call that may raise returns a sum: \<open>Inl e\<close> when \<open>e\<close> is raised.
\<close>

datatype exc_class = SyntaxError | OtherException | NonException

record exn =
  exc_class :: exc_class
  exc_str :: string

text \<open>
  What the pipeline calls outside this repository: reading the file at a path, Python's
  tokenizer and Python's parser (which gives the body of the \<^verbatim>\<open>Module\<close> node). The
  tokenizer is a generator; an exception it raises part-way ends \<^verbatim>\<open>tokenize_code\<close>
  with that exception, whatever was appended before. The visitor itself has no
  \<^verbatim>\<open>raise\<close>, but the interpreter can stop it on a tree, with \<^verbatim>\<open>RecursionError\<close> when
  the tree is nested deeper than the recursion limit or with \<^verbatim>\<open>ValueError\<close> when
  \<^verbatim>\<open>str\<close> meets an integer beyond its digit limit: \<open>visit_fault\<close> gives that exception,
  if there is one.
\<close>

record py_env =
  read_file :: "string \<Rightarrow> exn + string"
  generate_tokens :: "string \<Rightarrow> exn + token list"
  ast_parse :: "string \<Rightarrow> exn + stmt list"
  visit_fault :: "stmt list \<Rightarrow> exn option"

definition tokenize_code :: "py_env \<Rightarrow> string \<Rightarrow> exn + string" where
  "tokenize_code env code =
     (case generate_tokens env code of
        Inl e \<Rightarrow> Inl e
      | Inr toks \<Rightarrow> Inr (reduce_tokens toks))"

text \<open>
  The body of the \<^verbatim>\<open>try\<close> of \<^verbatim>\<open>summarize_code_with_ast\<close>, and the function with its
  \<^verbatim>\<open>except SyntaxError\<close> clause.
\<close>

definition parse_and_visit :: "py_env \<Rightarrow> string \<Rightarrow> exn + string" where
  "parse_and_visit env code =
     (case ast_parse env code of
        Inl e \<Rightarrow> Inl e
      | Inr tree \<Rightarrow>
          (case visit_fault env tree of
             Some e \<Rightarrow> Inl e
           | None \<Rightarrow> Inr (get_summary (visit_Module tree))))"

definition summarize_code_with_ast :: "py_env \<Rightarrow> string \<Rightarrow> exn + string" where
  "summarize_code_with_ast env code =
     (case parse_and_visit env code of
        Inl e \<Rightarrow>
          if exc_class e = SyntaxError then Inr (''Error in parsing code: '' @ exc_str e)
          else Inl e
      | Inr summary \<Rightarrow> Inr summary)"

definition compress_code :: "py_env \<Rightarrow> string \<Rightarrow> exn + string" where
  "compress_code env code =
     (case tokenize_code env code of
        Inl e \<Rightarrow> Inl e
      | Inr cleaned_code \<Rightarrow> summarize_code_with_ast env cleaned_code)"

definition summarize_file :: "py_env \<Rightarrow> string \<Rightarrow> exn + string" where
  "summarize_file env file_path =
     (case (case read_file env file_path of
              Inl e \<Rightarrow> Inl e
            | Inr code \<Rightarrow> compress_code env code) of
        Inl e \<Rightarrow>
          if exc_class e \<noteq> NonException
          then Inr (''Error summarizing '' @ file_path @ '': '' @ exc_str e)
          else Inl e
      | Inr summarized_code \<Rightarrow> Inr summarized_code)"

section \<open>Notions of the specification\<close>

text \<open>
  The recognized statement kinds of the digest, in the specification's words: assignment,
  if, for, expression statement wrapping a call, return.
\<close>

fun recognized :: "stmt \<Rightarrow> bool" where
  "recognized (Assign targets v) = True"
| "recognized (If_stmt test body orelse) = True"
| "recognized (For target iter body orelse) = True"
| "recognized (Expr (Call func as)) = True"
| "recognized (Return v) = True"
| "recognized _ = False"

text \<open>
  The pre-order, depth-first listing of the statement nodes of a tree: a node, then the
  nodes of its blocks, in field order.
\<close>

fun preorder :: "stmt \<Rightarrow> stmt list"
  and preorder_stmts :: "stmt list \<Rightarrow> stmt list"
  and preorder_blocks :: "stmt list list \<Rightarrow> stmt list"
where
  "preorder (FunctionDef name a body) = FunctionDef name a body # preorder_stmts body"
| "preorder (AsyncFunctionDef name a body) =
     AsyncFunctionDef name a body # preorder_stmts body"
| "preorder (ClassDef name body) = ClassDef name body # preorder_stmts body"
| "preorder (For target iter body orelse) =
     For target iter body orelse # preorder_stmts body @ preorder_stmts orelse"
| "preorder (AsyncFor target iter body orelse) =
     AsyncFor target iter body orelse # preorder_stmts body @ preorder_stmts orelse"
| "preorder (While body orelse) =
     While body orelse # preorder_stmts body @ preorder_stmts orelse"
| "preorder (If_stmt test body orelse) =
     If_stmt test body orelse # preorder_stmts body @ preorder_stmts orelse"
| "preorder (With body) = With body # preorder_stmts body"
| "preorder (AsyncWith body) = AsyncWith body # preorder_stmts body"
| "preorder (Match cases) = Match cases # preorder_blocks cases"
| "preorder (Try body handlers orelse finalbody) =
     Try body handlers orelse finalbody #
       preorder_stmts body @ preorder_blocks handlers @ preorder_stmts orelse @
       preorder_stmts finalbody"
| "preorder (TryStar body handlers orelse finalbody) =
     TryStar body handlers orelse finalbody #
       preorder_stmts body @ preorder_blocks handlers @ preorder_stmts orelse @
       preorder_stmts finalbody"
| "preorder (Return v) = [Return v]"
| "preorder (Assign targets v) = [Assign targets v]"
| "preorder (Expr e) = [Expr e]"
| "preorder (SimpleStmt k) = [SimpleStmt k]"
| "preorder_stmts [] = []"
| "preorder_stmts (s # ss) = preorder s @ preorder_stmts ss"
| "preorder_blocks [] = []"
| "preorder_blocks (b # bs) = preorder_stmts b @ preorder_blocks bs"

text \<open>
  The definitions of the specification's data model are the \<open>FunctionDef\<close> and
  \<open>ClassDef\<close> nodes. \<open>entries s\<close> is what the node \<open>s\<close> itself adds to the report: its
  one entry when it is a definition, nothing otherwise.
\<close>

fun is_FunctionDef :: "stmt \<Rightarrow> bool" where
  "is_FunctionDef (FunctionDef name a body) = True"
| "is_FunctionDef _ = False"

fun is_ClassDef :: "stmt \<Rightarrow> bool" where
  "is_ClassDef (ClassDef name body) = True"
| "is_ClassDef _ = False"

definition is_def :: "stmt \<Rightarrow> bool" where
  "is_def s = (is_FunctionDef s \<or> is_ClassDef s)"

fun entries :: "stmt \<Rightarrow> string list" where
  "entries (FunctionDef name a body) = [func_summary name a body]"
| "entries (ClassDef name body) = [class_summary name]"
| "entries _ = []"




text \<open>
  The tokens that the reducer can drop, and the condition under which its tracker holds
  the indent kind after a run of tokens \<open>pre\<close>: going back from the end of \<open>pre\<close> over
  comments and string literals, one meets an indent token or the start of the stream.
\<close>

definition droppable :: "token \<Rightarrow> bool" where
  "droppable t = (tok_type t = COMMENT \<or> tok_type t = STRING)"

definition indent_pending :: "token list \<Rightarrow> bool" where
  "indent_pending pre =
     (case dropWhile droppable (rev pre) of [] \<Rightarrow> True | k # ks \<Rightarrow> tok_type k = INDENT)"

text \<open>What may stand in the output just before the text of a kept token: at most one run of spaces.\<close>

definition space_pad :: "string list \<Rightarrow> bool" where
  "space_pad pad =
     (case pad of [] \<Rightarrow> True | [p] \<Rightarrow> set p \<subseteq> {CHR '' ''} | p # q # qs \<Rightarrow> False)"

section \<open>Example inputs\<close>

definition tok :: "toktype \<Rightarrow> string \<Rightarrow> int \<Rightarrow> int \<Rightarrow> int \<Rightarrow> int \<Rightarrow> token" where
  "tok ty s r c r' c' =
     \<lparr>tok_type = ty, tok_string = s, srow = r, scol = c, erow = r', ecol = c'\<rparr>"

definition params :: "string list \<Rightarrow> arguments" where
  "params names =
     \<lparr>posonlyargs = [], args = names, vararg = None, kwonlyargs = [], kwarg = None\<rparr>"

text \<open>
  The tokens of the two lines \<^verbatim>\<open>def f():\<close> and \<^verbatim>\<open>    "a" "b"\<close>: the header and the
  indent, then the two adjacent string literals, then the rest.
\<close>

definition header_tokens :: "token list" where
  "header_tokens =
     [tok NAME ''def'' 1 0 1 3, tok NAME ''f'' 1 4 1 5, tok OP ''('' 1 5 1 6,
      tok OP '')'' 1 6 1 7, tok OP '':'' 1 7 1 8, tok NEWLINE [nl] 1 8 1 9,
      tok INDENT ''    '' 2 0 2 4]"

definition string_a :: token where
  "string_a = tok STRING [CHR 0x22, CHR ''a'', CHR 0x22] 2 4 2 7"

definition string_b :: token where
  "string_b = tok STRING [CHR 0x22, CHR ''b'', CHR 0x22] 2 8 2 11"

definition closing_tokens :: "token list" where
  "closing_tokens =
     [tok NEWLINE [nl] 2 11 2 12, tok DEDENT [] 3 0 3 0, tok ENDMARKER [] 3 0 3 0]"

text \<open>The function \<^verbatim>\<open>def add(a, b): return a + b\<close> and a class with a method.\<close>

definition add_def :: stmt where
  "add_def =
     FunctionDef ''add'' (params [''a'', ''b''])
       [Return (Some (BinOp (Name ''a'') Add (Name ''b'')))]"

definition outer_def :: stmt where
  "outer_def =
     FunctionDef ''outer'' (params [])
       [FunctionDef ''inner'' (params [''x'']) [SimpleStmt Pass],
        Return (Some (Name ''inner''))]"


text \<open>
  A function body with recognized statements and, between them, a bare \<^verbatim>\<open>raise\<close> and a
  \<^verbatim>\<open>while\<close> loop.
\<close>

definition digest_body :: "stmt list" where
  "digest_body =
     [Assign [Name ''x''] (Constant (CInt 1)), SimpleStmt Raise,
      While [Expr (Call (Name ''f'') [])] [], Expr (Call (Name ''print'') [Name ''x'']),
      Return (Some (Name ''x''))]"

text \<open>
  A coroutine with a function defined in its body, and a module of two definitions and
  two other statements, none nested.
\<close>

definition fetch_def :: stmt where
  "fetch_def =
     AsyncFunctionDef ''fetch'' (params [''url''])
       [FunctionDef ''helper'' (params []) [SimpleStmt Pass],
        Return (Some (Call (Name ''helper'') []))]"


text \<open>
  The tokens of \<^verbatim>\<open>x = "s"\<close> up to the string literal, and the literal; and the tokens
  of a file that opens with the string literal \<^verbatim>\<open>"doc"\<close>, followed by \<^verbatim>\<open>x = 1\<close>.
\<close>

definition assign_tokens :: "token list" where
  "assign_tokens = [tok NAME ''x'' 1 0 1 1, tok OP ''='' 1 2 1 3]"

definition string_s :: token where
  "string_s = tok STRING [CHR 0x22, CHR ''s'', CHR 0x22] 1 4 1 7"

definition docstring_token :: token where
  "docstring_token =
     tok STRING [CHR 0x22, CHR ''d'', CHR ''o'', CHR ''c'', CHR 0x22] 1 0 1 5"

definition after_docstring_tokens :: "token list" where
  "after_docstring_tokens =
     [tok NEWLINE [nl] 1 5 1 6, tok NAME ''x'' 2 0 2 1, tok OP ''='' 2 2 2 3,
      tok NUMBER ''1'' 2 4 2 5, tok NEWLINE [nl] 2 5 2 6, tok ENDMARKER [] 3 0 3 0]"

text \<open>
  Environments for \<^verbatim>\<open>summarize_file\<close>. In \<open>syntax_error_env\<close> the file holds
  \<^verbatim>\<open>x = = 1\<close>, which the tokenizer accepts and the parser rejects with a
  \<^verbatim>\<open>SyntaxError\<close>. In \<open>unclosed_env\<close> it holds \<^verbatim>\<open>def f(:\<close>, on which the tokenizer
  raises \<^verbatim>\<open>TokenError\<close> at the end of the input. In \<open>missing_env\<close> the file cannot be
  opened; in \<open>deep_env\<close> the parser gives up with a \<^verbatim>\<open>RecursionError\<close>; in
  \<open>digits_env\<close> the interpreter stops the visitor with a \<^verbatim>\<open>ValueError\<close>; in
  \<open>interrupt_env\<close> the read is interrupted from the keyboard; in \<open>add_env\<close> the file
  holds the function \<^verbatim>\<open>add\<close> and everything succeeds.
\<close>

definition double_equals_tokens :: "token list" where
  "double_equals_tokens =
     [tok NAME ''x'' 1 0 1 1, tok OP ''='' 1 2 1 3, tok OP ''='' 1 4 1 5,
      tok NUMBER ''1'' 1 6 1 7, tok NEWLINE [nl] 1 7 1 8, tok ENDMARKER [] 2 0 2 0]"

definition add_tokens :: "token list" where
  "add_tokens =
     [tok NAME ''def'' 1 0 1 3, tok NAME ''add'' 1 4 1 7, tok OP ''('' 1 7 1 8,
      tok NAME ''a'' 1 8 1 9, tok OP '','' 1 9 1 10, tok NAME ''b'' 1 11 1 12,
      tok OP '')'' 1 12 1 13, tok OP '':'' 1 13 1 14, tok NEWLINE [nl] 1 14 1 15,
      tok INDENT ''    '' 2 0 2 4, tok NAME ''return'' 2 4 2 10, tok NAME ''a'' 2 11 2 12,
      tok OP ''+'' 2 13 2 14, tok NAME ''b'' 2 15 2 16, tok NEWLINE [nl] 2 16 2 17,
      tok DEDENT [] 3 0 3 0, tok ENDMARKER [] 3 0 3 0]"

definition add_source :: string where
  "add_source = ''def add(a, b):'' @ [nl] @ ''    return a + b'' @ [nl]"

definition syntax_error :: exn where
  "syntax_error =
     \<lparr>exc_class = SyntaxError, exc_str = ''invalid syntax (<unknown>, line 1)''\<rparr>"

definition token_error :: exn where
  "token_error =
     \<lparr>exc_class = OtherException, exc_str = ''('EOF in multi-line statement', (2, 0))''\<rparr>"

definition not_found_error :: exn where
  "not_found_error =
     \<lparr>exc_class = OtherException,
      exc_str = ''[Errno 2] No such file or directory: 'a.py'' @ [CHR 0x27]\<rparr>"

definition recursion_error :: exn where
  "recursion_error =
     \<lparr>exc_class = OtherException,
      exc_str = ''maximum recursion depth exceeded during compilation''\<rparr>"

definition keyboard_interrupt :: exn where
  "keyboard_interrupt = \<lparr>exc_class = NonException, exc_str = []\<rparr>"

definition syntax_error_env :: py_env where
  "syntax_error_env =
     \<lparr>read_file = (\<lambda>path. Inr (''x = = 1'' @ [nl])),
      generate_tokens = (\<lambda>code. Inr double_equals_tokens),
      ast_parse = (\<lambda>code. if code = ''x = = 1'' @ [nl] then Inl syntax_error else Inr []),
      visit_fault = (\<lambda>tree. None)\<rparr>"

definition unclosed_env :: py_env where
  "unclosed_env =
     \<lparr>read_file = (\<lambda>path. Inr ''def f(:''),
      generate_tokens = (\<lambda>code. Inl token_error),
      ast_parse = (\<lambda>code. Inl syntax_error),
      visit_fault = (\<lambda>tree. None)\<rparr>"

definition missing_env :: py_env where
  "missing_env =
     \<lparr>read_file = (\<lambda>path. Inl not_found_error),
      generate_tokens = (\<lambda>code. Inr []),
      ast_parse = (\<lambda>code. Inr []),
      visit_fault = (\<lambda>tree. None)\<rparr>"

definition deep_env :: py_env where
  "deep_env =
     \<lparr>read_file = (\<lambda>path. Inr add_source),
      generate_tokens = (\<lambda>code. Inr add_tokens),
      ast_parse = (\<lambda>code. Inl recursion_error),
      visit_fault = (\<lambda>tree. None)\<rparr>"

definition interrupt_env :: py_env where
  "interrupt_env =
     \<lparr>read_file = (\<lambda>path. Inl keyboard_interrupt),
      generate_tokens = (\<lambda>code. Inr []),
      ast_parse = (\<lambda>code. Inr []),
      visit_fault = (\<lambda>tree. None)\<rparr>"

definition digits_error :: exn where
  "digits_error =
     \<lparr>exc_class = OtherException,
      exc_str = ''Exceeds the limit (4300 digits) for integer string conversion''\<rparr>"

definition digits_env :: py_env where
  "digits_env =
     \<lparr>read_file = (\<lambda>path. Inr add_source),
      generate_tokens = (\<lambda>code. Inr add_tokens),
      ast_parse = (\<lambda>code. Inr [add_def]),
      visit_fault = (\<lambda>tree. Some digits_error)\<rparr>"

definition add_env :: py_env where
  "add_env =
     \<lparr>read_file = (\<lambda>path. Inr add_source),
      generate_tokens = (\<lambda>code. if code = add_source then Inr add_tokens else Inr []),
      ast_parse = (\<lambda>code. if code = add_source then Inr [add_def] else Inr []),
      visit_fault = (\<lambda>tree. None)\<rparr>"

section \<open>Tokens in their source text\<close>

text \<open>
  Whether a token is dropped depends on its kind and on the tracker; a dropped token
  leaves the tracker as it was.
\<close>

definition is_dropped :: "toktype \<Rightarrow> token \<Rightarrow> bool" where
  "is_dropped prev t = (tok_type t = COMMENT \<or> (tok_type t = STRING \<and> prev = INDENT))"

definition tracker_after :: "toktype \<Rightarrow> token \<Rightarrow> toktype" where
  "tracker_after prev t = (if is_dropped prev t then prev else tok_type t)"

text \<open>
  A stream in which no token is dropped: no comment, and no string literal at the start
  of the input or just after an indent token.
\<close>

fun undropped :: "toktype \<Rightarrow> token list \<Rightarrow> bool" where
  "undropped prev [] = True"
| "undropped prev (t # ts) = (\<not> is_dropped prev t \<and> undropped (tok_type t) ts)"

text \<open>A stream whose dropped tokens each lie within one line, and one whose last token is kept.\<close>

fun drops_in_line :: "toktype \<Rightarrow> token list \<Rightarrow> bool" where
  "drops_in_line prev [] = True"
| "drops_in_line prev (t # ts) =
     ((if is_dropped prev t then tok_string t \<noteq> [] \<and> nl \<notin> set (tok_string t) else True) \<and>
      drops_in_line (tracker_after prev t) ts)"

fun last_kept :: "toktype \<Rightarrow> token list \<Rightarrow> bool" where
  "last_kept prev [] = False"
| "last_kept prev [t] = (\<not> is_dropped prev t)"
| "last_kept prev (t # u # ts) = last_kept (tracker_after prev t) (u # ts)"

text \<open>
  Positions are pairs of a row and a column. \<open>advance p cs\<close> is the position reached from
  \<open>p\<close> after the characters \<open>cs\<close>: a line feed leads to column 0 of the next row, any
  other character to the next column.
\<close>

fun advance :: "int \<times> int \<Rightarrow> string \<Rightarrow> int \<times> int" where
  "advance p [] = p"
| "advance p (c # cs) =
     advance (if c = nl then (fst p + 1, 0) else (fst p, snd p + 1)) cs"

text \<open>
  How the tokenizer reports positions. A token ends where its text ends, with two
  exceptions: a token whose text ends in a line feed (\<^verbatim>\<open>NEWLINE\<close>, \<^verbatim>\<open>NL\<close>) is reported to
  end on its own row, one column further for each character; and the empty
  \<^verbatim>\<open>NEWLINE\<close> token that the tokenizer makes up at the end of an input without a final
  line feed is reported one column wide, the tokens after it lying on the next row.
\<close>

definition made_up_newline :: "token \<Rightarrow> bool" where
  "made_up_newline t = (tok_string t = [] \<and> erow t = srow t \<and> ecol t = scol t + 1)"

definition next_pos :: "token \<Rightarrow> int \<times> int" where
  "next_pos t =
     (if made_up_newline t then (srow t + 1, 0)
      else advance (srow t, scol t) (tok_string t))"

definition end_ok :: "token \<Rightarrow> bool" where
  "end_ok t =
     (made_up_newline t \<or>
      (erow t, ecol t) = advance (srow t, scol t) (tok_string t) \<or>
      (tok_string t \<noteq> [] \<and> last (tok_string t) = nl \<and> erow t = srow t \<and>
       ecol t = scol t + int (length (tok_string t))))"

text \<open>
  \<open>laid_out gap_ok p src toks\<close>: the text \<open>src\<close>, read from position \<open>p\<close>, is the tokens
  \<open>toks\<close> at the positions they report, each on the row the text has reached, with
  nothing between two tokens but characters that satisfy \<open>gap_ok\<close>.
\<close>

fun laid_out :: "(char \<Rightarrow> bool) \<Rightarrow> int \<times> int \<Rightarrow> string \<Rightarrow> token list \<Rightarrow> bool" where
  "laid_out gap_ok p src [] = (src = [])"
| "laid_out gap_ok p src (t # ts) =
     (srow t = fst p \<and> snd p \<le> scol t \<and>
      nat (scol t - snd p) + length (tok_string t) \<le> length src \<and>
      list_all gap_ok (take (nat (scol t - snd p)) src) \<and>
      take (length (tok_string t)) (drop (nat (scol t - snd p)) src) = tok_string t \<and>
      end_ok t \<and>
      laid_out gap_ok (next_pos t)
        (drop (nat (scol t - snd p) + length (tok_string t)) src) ts)"

definition is_space :: "char \<Rightarrow> bool" where
  "is_space c = (c = CHR '' '')"

definition is_blank :: "char \<Rightarrow> bool" where
  "is_blank c = (c = CHR '' '' \<or> c = CHR 0x09 \<or> c = CHR 0x0C)"

text \<open>
  \<open>kept_mask prev p toks\<close> marks, character by character of the text that \<open>toks\<close> is laid
  out in, the characters of the kept tokens; \<open>overwrite marks src\<close> is \<open>src\<close> with every
  unmarked character replaced by a space.
\<close>

fun kept_mask :: "toktype \<Rightarrow> int \<times> int \<Rightarrow> token list \<Rightarrow> bool list" where
  "kept_mask prev p [] = []"
| "kept_mask prev p (t # ts) =
     replicate (nat (scol t - snd p)) False @
     replicate (length (tok_string t)) (\<not> is_dropped prev t) @
     kept_mask (tracker_after prev t) (next_pos t) ts"

definition overwrite :: "bool list \<Rightarrow> string \<Rightarrow> string" where
  "overwrite marks src = map (\<lambda>(keep, c). if keep then c else CHR '' '') (zip marks src)"

text \<open>
  What relates the loop to the text read so far: the trackers \<open>last_lineno\<close> and
  \<open>last_col\<close> against the position \<open>p\<close> that the text has reached, and the number of
  characters read since the last kept token, for which the output has nothing yet.
\<close>

definition agree :: "reducer \<Rightarrow> int \<times> int \<Rightarrow> bool" where
  "agree s p =
     (0 \<le> snd p \<and> ((last_lineno s = fst p \<and> last_col s \<le> snd p) \<or> last_lineno s < fst p))"

definition owed :: "reducer \<Rightarrow> int \<times> int \<Rightarrow> nat" where
  "owed s p = nat (if last_lineno s = fst p then snd p - last_col s else snd p)"

definition final_pos :: "int \<times> int \<Rightarrow> token list \<Rightarrow> int \<times> int" where
  "final_pos p toks = (if toks = [] then p else next_pos (last toks))"

definition text_of :: "reducer \<Rightarrow> string" where
  "text_of s = concat (output_buf s)"
text \<open>
  The line \<^verbatim>\<open>x = 1\<close> written with a tab on each side of the equals sign, and the line
  \<^verbatim>\<open>x = 1  # c\<close>, each with its tokens.
\<close>

definition tab_source :: string where
  "tab_source = [CHR ''x'', CHR 0x09, CHR ''='', CHR 0x09, CHR ''1'', nl]"

definition tab_tokens :: "token list" where
  "tab_tokens =
     [tok NAME ''x'' 1 0 1 1, tok OP ''='' 1 2 1 3, tok NUMBER ''1'' 1 4 1 5,
      tok NEWLINE [nl] 1 5 1 6, tok ENDMARKER [] 2 0 2 0]"

definition comment_source :: string where
  "comment_source = ''x = 1  # c'' @ [nl]"

definition comment_token :: token where
  "comment_token = tok COMMENT ''# c'' 1 7 1 10"

definition before_comment_tokens :: "token list" where
  "before_comment_tokens =
     [tok NAME ''x'' 1 0 1 1, tok OP ''='' 1 2 1 3, tok NUMBER ''1'' 1 4 1 5]"

definition after_comment_tokens :: "token list" where
  "after_comment_tokens = [tok NEWLINE [nl] 1 10 1 11, tok ENDMARKER [] 2 0 2 0]"


section \<open>The name renderer: properties\<close>

text \<open>
  C5. For every expression node the name renderer gives: the identifier of a simple
  identifier; the rendering of the base followed by a dot and the attribute for an
  attribute access; the rendering of the callee alone, the arguments dropped, for a call;
  \<^verbatim>\<open>str\<close> of the value for a literal constant; left, operator symbol and right,
  separated by single spaces, for a binary operation, where the symbol is one of
  \<^verbatim>\<open>+ - * /\<close> and \<^verbatim>\<open>?\<close> for every other operator; and the placeholder \<^verbatim>\<open>...\<close>
  for every other kind of expression.
\<close>

theorem get_name_renders:
  "get_name (Name ident) = ident \<and>
   get_name (Attribute v attr) = get_name v @ ''.'' @ attr \<and>
   get_name (Call func as) = get_name func \<and>
   get_name (Constant c) = py_str c \<and>
   get_name (BinOp l oper r) =
     get_name l @ '' '' @
     (if oper = Add then ''+'' else if oper = Sub then ''-''
      else if oper = Mult then ''*'' else if oper = Div then ''/'' else ''?'') @
     '' '' @ get_name r \<and>
   get_name (OtherExpr k es) = ''...''"
  by (cases oper) simp_all

lemma get_name_examples:
  "get_name (BinOp (Name ''a'') Add (Name ''b'')) = ''a + b''"
  "get_name (BinOp (Name ''a'') FloorDiv (Constant (CInt 2))) = ''a ? 2''"
  "get_name (Call (Attribute (Name ''os'') ''getcwd'') [Name ''x'']) = ''os.getcwd''"
  "get_name (Constant (CInt (- 120))) = ''-120''"
  "get_name (OtherExpr Subscript [Name ''xs'', Constant (CInt 0)]) = ''...''"
  by code_simp+

section \<open>The body digest: properties\<close>

lemma body_step_append: "body_step ls s = ls @ body_step [] s"
  by (cases "(ls, s)" rule: body_step.cases) simp_all

lemma foldl_body_step: "foldl body_step ls body = ls @ foldl body_step [] body"
proof (induction body arbitrary: ls)
  case Nil
  show ?case by simp
next
  case (Cons s ss)
  have "foldl body_step ls (s # ss) = body_step ls s @ foldl body_step [] ss"
    using Cons.IH [of "body_step ls s"] by simp
  also have "\<dots> = ls @ body_step [] s @ foldl body_step [] ss"
    using body_step_append [of ls s] by simp
  also have "body_step [] s @ foldl body_step [] ss = foldl body_step [] (s # ss)"
    using Cons.IH [of "body_step [] s"] by simp
  finally show ?case .
qed

lemma important_lines_append:
  "important_lines (xs @ ys) = important_lines xs @ important_lines ys"
  unfolding important_lines_def using foldl_body_step [of "foldl body_step [] xs" ys] by simp

lemma important_lines_Cons:
  "important_lines (s # ss) = important_lines [s] @ important_lines ss"
  using important_lines_append [of "[s]" ss] by simp

lemma important_lines_recognized:
  "recognized s \<Longrightarrow> \<exists>frag. frag \<noteq> [] \<and> important_lines [s] = [frag]"
  unfolding important_lines_def by (cases s rule: recognized.cases) simp_all

lemma important_lines_unrecognized: "\<not> recognized s \<Longrightarrow> important_lines [s] = []"
  unfolding important_lines_def by (cases s rule: recognized.cases) simp_all

lemma important_lines_concat:
  "important_lines body = concat (map (\<lambda>s. important_lines [s]) body)"
proof (induction body)
  case Nil
  show ?case by (simp add: important_lines_def)
next
  case (Cons s ss)
  then show ?case using important_lines_Cons [of s ss] by simp
qed

lemma important_lines_nonempty: "[] \<notin> set (important_lines body)"
proof (induction body)
  case Nil
  show ?case by (simp add: important_lines_def)
next
  case (Cons s ss)
  have "[] \<notin> set (important_lines [s])"
    using important_lines_recognized [of s] important_lines_unrecognized [of s]
    by (cases "recognized s") auto
  with Cons show ?case using important_lines_Cons [of s ss] by simp
qed

lemma important_lines_empty_iff:
  "important_lines body = [] \<longleftrightarrow> list_all (\<lambda>s. \<not> recognized s) body"
proof (induction body)
  case Nil
  show ?case by (simp add: important_lines_def)
next
  case (Cons s ss)
  show ?case
    using Cons important_lines_Cons [of s ss]
      important_lines_recognized [of s] important_lines_unrecognized [of s]
    by (cases "recognized s") auto
qed

lemma str_join_empty_iff: "[] \<notin> set xs \<Longrightarrow> str_join sep xs = [] \<longleftrightarrow> xs = []"
  by (induction sep xs rule: str_join.induct) auto

text \<open>
  C4. The digest of a function body is computed over the body's own statements, in order:
  it is the fragments of the statements, one after the other, joined with \<^verbatim>\<open>" | "\<close>. A
  statement of a recognized kind (assignment, if, for, expression statement wrapping a
  call, return) contributes exactly one fragment, which is not empty. A statement of any
  other kind contributes none, and the statements before and after it contribute as if
  it were not there. The digest is empty exactly when no statement of the body is
  recognized, and the function's entry is its header, followed by a line feed,
  \<^verbatim>\<open>"  Body: "\<close> and the digest only when the digest is not empty.
\<close>

theorem body_digest:
  "summarize_function_body body =
     str_join '' | '' (concat (map (\<lambda>s. important_lines [s]) body)) \<and>
   (recognized s \<longrightarrow> (\<exists>frag. frag \<noteq> [] \<and> important_lines [s] = [frag])) \<and>
   (\<not> recognized s \<longrightarrow>
      important_lines [s] = [] \<and>
      important_lines (pre @ s # post) = important_lines pre @ important_lines post) \<and>
   (summarize_function_body body = [] \<longleftrightarrow> list_all (\<lambda>s. \<not> recognized s) body) \<and>
   func_summary name a body =
     ''Function: '' @ name @ ''('' @ str_join '', '' (args a) @ '')'' @
     (if summarize_function_body body = [] then []
      else [nl] @ ''  Body: '' @ summarize_function_body body)"
proof -
  have digest: "summarize_function_body body =
      str_join '' | '' (concat (map (\<lambda>s. important_lines [s]) body))"
    unfolding summarize_function_body_def using important_lines_concat [of body] by simp
  have skip: "important_lines (pre @ s # post) = important_lines pre @ important_lines post"
    if "\<not> recognized s"
    using that important_lines_append [of pre "s # post"] important_lines_Cons [of s post]
      important_lines_unrecognized [of s] by simp
  have empty: "summarize_function_body body = [] \<longleftrightarrow> list_all (\<lambda>s. \<not> recognized s) body"
    unfolding summarize_function_body_def
    using str_join_empty_iff [OF important_lines_nonempty, of "'' | ''" body]
      important_lines_empty_iff [of body] by simp
  have entry: "func_summary name a body =
     ''Function: '' @ name @ ''('' @ str_join '', '' (args a) @ '')'' @
     (if summarize_function_body body = [] then []
      else [nl] @ ''  Body: '' @ summarize_function_body body)"
    by (simp add: func_summary_def Let_def)
  show ?thesis
    using digest skip empty entry important_lines_recognized [of s]
      important_lines_unrecognized [of s]
    by blast
qed

text \<open>
  The theorem at a body whose second and third statements, a bare \<^verbatim>\<open>raise\<close> and a
  \<^verbatim>\<open>while\<close> loop, are not recognized: the statements after them still contribute.
\<close>

theorem body_digest_witness:
  "recognized (Return (Some (Name ''x''))) \<and>
   important_lines [Return (Some (Name ''x''))] = [''return x''] \<and>
   \<not> recognized (SimpleStmt Raise) \<and>
   important_lines ([Assign [Name ''x''] (Constant (CInt 1))] @ SimpleStmt Raise #
      [Return (Some (Name ''x''))]) = [''x = 1'', ''return x''] \<and>
   summarize_function_body digest_body = ''x = 1 | print(x) | return x'' \<and>
   func_summary ''g'' (params []) digest_body =
     ''Function: g()'' @ [nl] @ ''  Body: x = 1 | print(x) | return x'' \<and>
   func_summary ''g'' (params []) [SimpleStmt Pass] = ''Function: g()''"
proof -
  have r: "recognized (Return (Some (Name ''x'')))" by simp
  have u: "\<not> recognized (SimpleStmt Raise)" by simp
  have one: "important_lines [Return (Some (Name ''x''))] = [''return x'']"
    by (simp add: important_lines_def)
  have "important_lines ([Assign [Name ''x''] (Constant (CInt 1))] @ SimpleStmt Raise #
      [Return (Some (Name ''x''))]) =
      important_lines [Assign [Name ''x''] (Constant (CInt 1))] @
      important_lines [Return (Some (Name ''x''))]"
    using u body_digest [of digest_body "SimpleStmt Raise"
        "[Assign [Name ''x''] (Constant (CInt 1))]" "[Return (Some (Name ''x''))]"]
    by blast
  moreover have "important_lines [Assign [Name ''x''] (Constant (CInt 1))] = [''x = 1'']"
    by code_simp
  ultimately have two:
    "important_lines ([Assign [Name ''x''] (Constant (CInt 1))] @ SimpleStmt Raise #
      [Return (Some (Name ''x''))]) = [''x = 1'', ''return x'']"
    using one by simp
  have d: "summarize_function_body digest_body = ''x = 1 | print(x) | return x''"
    by code_simp
  have e1: "func_summary ''g'' (params []) digest_body =
      ''Function: g()'' @ [nl] @ ''  Body: x = 1 | print(x) | return x''"
    using body_digest [of digest_body "Return (Some (Name ''x''))" "[]" "[]" "''g''" "params []"] d
    by (simp add: params_def)
  have e2: "func_summary ''g'' (params []) [SimpleStmt Pass] = ''Function: g()''"
    by code_simp
  show ?thesis using r u one two d e1 e2 by blast
qed

section \<open>The visitor: properties\<close>

lemma visit_entries:
  "visit s summary = summary @ concat (map entries (preorder s))"
  "visit_stmts ss summary = summary @ concat (map entries (preorder_stmts ss))"
  "visit_blocks bs summary = summary @ concat (map entries (preorder_blocks bs))"
  by (induction s summary and ss summary and bs summary
      rule: visit_visit_stmts_visit_blocks.induct) simp_all

lemma length_entries: "length (entries s) = (if is_def s then 1 else 0)"
  by (cases s rule: entries.cases) (simp_all add: is_def_def)


lemma length_concat_entries:
  "length (concat (map entries xs)) = length (filter is_def xs)"
  by (induction xs) (simp_all add: length_entries)



text \<open>
  C3. The summary that the visit of a module leaves is, node by node of the pre-order,
  depth-first listing of the tree, what each node adds: exactly one entry for a
  \<open>FunctionDef\<close> or a \<open>ClassDef\<close>, nothing for any other node. So the entries are as
  many as the definitions reachable, in pre-order; and the visit of a definition appends
  the definition's own entry first and the entries of the definitions nested in it after.
\<close>

theorem visit_preorder:
  "visit_Module body = concat (map entries (preorder_stmts body)) \<and>
   length (visit_Module body) = length (filter is_def (preorder_stmts body)) \<and>
   length (entries s) = (if is_def s then 1 else 0) \<and>
   visit (FunctionDef name a b) summary =
     summary @ func_summary name a b # concat (map entries (preorder_stmts b)) \<and>
   visit (ClassDef name b) summary =
     summary @ class_summary name # concat (map entries (preorder_stmts b))"
  by (simp add: visit_Module_def visit_entries length_concat_entries length_entries)

text \<open>A function defined inside another: two entries, the outer one first.\<close>

lemma nested_function_example:
  "visit_Module [outer_def] =
     [''Function: outer()'' @ [nl] @ ''  Body: return inner'', ''Function: inner(x)'']"
  by code_simp

text \<open>
  C10. The visitor has no method for \<open>AsyncFunctionDef\<close>: the visit of such a node is the
  generic one, which adds no entry for the node and visits its body, so that the
  definitions nested in the body get their entries.
\<close>

theorem async_def_no_entry:
  "visit (AsyncFunctionDef name a body) summary = visit_stmts body summary \<and>
   visit (AsyncFunctionDef name a body) summary =
     summary @ concat (map entries (preorder_stmts body)) \<and>
   entries (AsyncFunctionDef name a body) = []"
  by (simp add: visit_entries)

lemma async_def_example: "visit_Module [fetch_def] = [''Function: helper()'']"
  by code_simp

subsection \<open>Modules without nesting\<close>










section \<open>The lexical reducer: which tokens are dropped\<close>

lemma reduce_loop_snoc: "reduce_loop (pre @ [t]) = reduce_step (reduce_loop pre) t"
  by (simp add: reduce_loop_def)

lemma reduce_step_comment: "tok_type t = COMMENT \<Longrightarrow> reduce_step s t = s"
  by (simp add: reduce_step_def)

lemma reduce_step_docstring:
  "tok_type t = STRING \<Longrightarrow> prev_toktype s = INDENT \<Longrightarrow> reduce_step s t = s"
  by (simp add: reduce_step_def)

lemma reduce_step_kept:
  assumes "tok_type t \<noteq> COMMENT" and "tok_type t = STRING \<longrightarrow> prev_toktype s \<noteq> INDENT"
  shows "prev_toktype (reduce_step s t) = tok_type t"
    and "last_lineno (reduce_step s t) = erow t"
    and "last_col (reduce_step s t) = ecol t"
    and "output_buf (reduce_step s t) =
           output_buf s @
           (if scol t > (if srow t > last_lineno s then 0 else last_col s)
            then [replicate (nat (scol t - (if srow t > last_lineno s then 0 else last_col s)))
                    CHR '' '']
            else []) @ [tok_string t]"
  using assms by (auto simp add: reduce_step_def Let_def)

lemma reduce_step_kept_output:
  assumes "tok_type t \<noteq> COMMENT" and "tok_type t = STRING \<longrightarrow> prev_toktype s \<noteq> INDENT"
  shows "\<exists>pad. space_pad pad \<and> output_buf (reduce_step s t) = output_buf s @ pad @ [tok_string t]"
proof -
  define pad where "pad =
    (if scol t > (if srow t > last_lineno s then 0 else last_col s)
     then [replicate (nat (scol t - (if srow t > last_lineno s then 0 else last_col s)))
             CHR '' '']
     else [])"
  have "space_pad pad" by (simp add: pad_def space_pad_def)
  moreover have "output_buf (reduce_step s t) = output_buf s @ pad @ [tok_string t]"
    unfolding pad_def by (rule reduce_step_kept(4) [OF assms])
  ultimately show ?thesis by blast
qed

lemma indent_pending_snoc:
  "indent_pending (pre @ [k]) =
     (if droppable k then indent_pending pre else tok_type k = INDENT)"
  by (simp add: indent_pending_def)

text \<open>The tracker after a run of tokens, read off the tokens themselves.\<close>

lemma prev_toktype_pending:
  "prev_toktype (reduce_loop pre) = INDENT \<longleftrightarrow> indent_pending pre"
proof (induction pre rule: rev_induct)
  case Nil
  show ?case by (simp add: reduce_loop_def reducer_init_def indent_pending_def)
next
  case (snoc t pre)
  show ?case
  proof (cases "droppable t")
    case True
    then have pend: "indent_pending (pre @ [t]) = indent_pending pre"
      by (simp add: indent_pending_snoc)
    show ?thesis
    proof (cases "tok_type t = COMMENT \<or> prev_toktype (reduce_loop pre) = INDENT")
      case True
      with \<open>droppable t\<close> have "reduce_step (reduce_loop pre) t = reduce_loop pre"
        by (auto simp add: droppable_def reduce_step_comment reduce_step_docstring)
      then show ?thesis using snoc.IH pend by (simp add: reduce_loop_snoc)
    next
      case False
      with \<open>droppable t\<close> have ty: "tok_type t = STRING" by (simp add: droppable_def)
      with False have "prev_toktype (reduce_step (reduce_loop pre) t) = STRING"
        using reduce_step_kept(1) [of t "reduce_loop pre"] by simp
      then show ?thesis using snoc.IH pend False by (simp add: reduce_loop_snoc)
    qed
  next
    case False
    then have pend: "indent_pending (pre @ [t]) = (tok_type t = INDENT)"
      by (simp add: indent_pending_snoc)
    from False have "prev_toktype (reduce_step (reduce_loop pre) t) = tok_type t"
      using reduce_step_kept(1) [of t "reduce_loop pre"] by (simp add: droppable_def)
    then show ?thesis using pend by (simp add: reduce_loop_snoc)
  qed
qed

text \<open>
  C2, as stated, at the two lines \<^verbatim>\<open>def f():\<close> and \<^verbatim>\<open>    "a" "b"\<close>: the token just
  before the second string literal is the first string literal, not an indent token, and
  the second literal is dropped all the same: the loop is after it as it was before it,
  and no text of either literal is in the output.
\<close>

theorem adjacent_string_counterexample:
  "tok_type (last header_tokens) = INDENT \<and>
   tok_type string_a = STRING \<and> tok_type string_b = STRING \<and>
   reduce_loop (header_tokens @ [string_a, string_b]) =
     reduce_loop (header_tokens @ [string_a]) \<and>
   reduce_tokens (header_tokens @ [string_a, string_b] @ closing_tokens) =
     ''def f():'' @ [nl] @ replicate 11 CHR '' '' @ [nl]"
  by code_simp

text \<open>
  C2, amended. The reducer drops every comment token, and every string literal token
  met while its tracker holds the indent kind; every other token is kept, its text
  appended after at most one run of spaces. The tracker starts as indent and is set to
  the kind of each kept token only, a dropped token leaving it as it was: it holds
  indent exactly when, going back over comments and string literals, one meets an indent
  token or the start of the stream. So a string literal just after an indent token is
  always dropped, and a string literal just after a kept token of another kind never is.
\<close>

theorem reducer_drops:
  "(if tok_type t = COMMENT \<or> (tok_type t = STRING \<and> indent_pending pre)
    then reduce_loop (pre @ [t]) = reduce_loop pre
    else \<exists>pad. space_pad pad \<and>
           output_buf (reduce_loop (pre @ [t])) =
             output_buf (reduce_loop pre) @ pad @ [tok_string t]) \<and>
   indent_pending [] \<and>
   indent_pending (pre @ [k]) =
     (if tok_type k = COMMENT \<or> tok_type k = STRING then indent_pending pre
      else tok_type k = INDENT)"
proof -
  have step: "if tok_type t = COMMENT \<or> (tok_type t = STRING \<and> indent_pending pre)
    then reduce_loop (pre @ [t]) = reduce_loop pre
    else \<exists>pad. space_pad pad \<and>
           output_buf (reduce_loop (pre @ [t])) =
             output_buf (reduce_loop pre) @ pad @ [tok_string t]"
  proof (cases "tok_type t = COMMENT \<or> (tok_type t = STRING \<and> indent_pending pre)")
    case True
    then have "reduce_step (reduce_loop pre) t = reduce_loop pre"
      using prev_toktype_pending [of pre]
      by (auto simp add: reduce_step_comment reduce_step_docstring)
    with True show ?thesis by (simp add: reduce_loop_snoc)
  next
    case False
    then have "tok_type t \<noteq> COMMENT"
      and "tok_type t = STRING \<longrightarrow> prev_toktype (reduce_loop pre) \<noteq> INDENT"
      using prev_toktype_pending [of pre] by auto
    from reduce_step_kept_output [OF this] False show ?thesis
      by (auto simp add: reduce_loop_snoc)
  qed
  have start: "indent_pending []" by (simp add: indent_pending_def)
  have track: "indent_pending (pre @ [k]) =
     (if tok_type k = COMMENT \<or> tok_type k = STRING then indent_pending pre
      else tok_type k = INDENT)"
    using indent_pending_snoc [of pre k] by (simp add: droppable_def)
  from step start track show ?thesis by blast
qed

text \<open>
  The theorem at the docstring of \<^verbatim>\<open>def f():\<close> (dropped, after the indent token) and at
  the string literal of \<^verbatim>\<open>x = "s"\<close> (kept, after the operator).
\<close>

theorem reducer_drops_witness:
  "tok_type string_a = STRING \<and> indent_pending header_tokens \<and>
   reduce_loop (header_tokens @ [string_a]) = reduce_loop header_tokens \<and>
   tok_type string_s = STRING \<and> \<not> indent_pending assign_tokens \<and>
   output_buf (reduce_loop (assign_tokens @ [string_s])) =
     output_buf (reduce_loop assign_tokens) @ ['' ''] @ [tok_string string_s]"
proof -
  have a: "tok_type string_a = STRING" "indent_pending header_tokens"
    by code_simp+
  have s: "tok_type string_s = STRING" "\<not> indent_pending assign_tokens"
    by code_simp+
  have "reduce_loop (header_tokens @ [string_a]) = reduce_loop header_tokens"
    using reducer_drops [of string_a header_tokens] a by simp
  moreover have "\<exists>pad. space_pad pad \<and>
      output_buf (reduce_loop (assign_tokens @ [string_s])) =
        output_buf (reduce_loop assign_tokens) @ pad @ [tok_string string_s]"
    using reducer_drops [of string_s assign_tokens] s by simp
  moreover have "output_buf (reduce_loop (assign_tokens @ [string_s])) =
      output_buf (reduce_loop assign_tokens) @ ['' ''] @ [tok_string string_s]"
    by code_simp
  ultimately show ?thesis using a s by blast
qed

text \<open>
  C9. The tracker is initialised to the indent kind, so a string literal that is the
  first token of the input is dropped, though no indent token precedes it: the loop over
  the whole input is the loop over the tokens after the literal, and so is the output.
\<close>

theorem leading_string_removed:
  "prev_toktype reducer_init = INDENT \<and>
   (tok_type t = STRING \<longrightarrow>
      reduce_loop (t # ts) = reduce_loop ts \<and> reduce_tokens (t # ts) = reduce_tokens ts)"
proof -
  have init: "prev_toktype reducer_init = INDENT" by (simp add: reducer_init_def)
  have "reduce_loop (t # ts) = reduce_loop ts" if "tok_type t = STRING"
    using that init by (simp add: reduce_loop_def reduce_step_docstring)
  then show ?thesis using init by (simp add: reduce_tokens_def)
qed

theorem leading_string_removed_witness:
  "tok_type docstring_token = STRING \<and>
   reduce_tokens (docstring_token # after_docstring_tokens) =
     reduce_tokens after_docstring_tokens \<and>
   reduce_tokens (docstring_token # after_docstring_tokens) =
     replicate 5 CHR '' '' @ [nl] @ ''x = 1'' @ [nl]"
proof -
  have ty: "tok_type docstring_token = STRING" by code_simp
  have out: "reduce_tokens after_docstring_tokens =
      replicate 5 CHR '' '' @ [nl] @ ''x = 1'' @ [nl]"
    by code_simp
  show ?thesis
    using leading_string_removed [of docstring_token after_docstring_tokens] ty out by simp
qed

section \<open>The public boundary\<close>

text \<open>
  C1, as stated, at a file holding \<^verbatim>\<open>x = = 1\<close>: the parser raises a
  \<^verbatim>\<open>SyntaxError\<close>, and what \<^verbatim>\<open>summarize_file\<close> returns is the message of
  \<^verbatim>\<open>summarize_code_with_ast\<close>, not a string of the shape
  \<^verbatim>\<open>Error summarizing <path>: <message>\<close>.
\<close>

theorem parse_error_counterexample:
  "reduce_tokens double_equals_tokens = ''x = = 1'' @ [nl] \<and>
   summarize_file syntax_error_env ''a.py'' =
     Inr ''Error in parsing code: invalid syntax (<unknown>, line 1)'' \<and>
   summarize_file syntax_error_env ''a.py'' \<noteq>
     Inr ''Error summarizing a.py: invalid syntax (<unknown>, line 1)''"
  by code_simp

text \<open>
  C1, amended. \<^verbatim>\<open>summarize_file\<close> returns a string whenever what is raised during the
  read or the compression is an instance of \<^verbatim>\<open>Exception\<close>: nothing but an exception
  outside that class crosses its boundary. A failure of the read or of the tokenizer,
  and a failure of the parser or of the visit that is not a \<^verbatim>\<open>SyntaxError\<close>, give
  \<^verbatim>\<open>Error summarizing <path>: <message>\<close>; a \<^verbatim>\<open>SyntaxError\<close> of the parser is caught
  before, in \<^verbatim>\<open>summarize_code_with_ast\<close>, and gives
  \<^verbatim>\<open>Error in parsing code: <message>\<close>; with no failure the result is the report.
\<close>

theorem summarize_file_outcome:
  "(summarize_file env p = Inl e \<longrightarrow> exc_class e = NonException) \<and>
   (read_file env p = Inl e \<and> exc_class e \<noteq> NonException \<longrightarrow>
      summarize_file env p = Inr (''Error summarizing '' @ p @ '': '' @ exc_str e)) \<and>
   (read_file env p = Inr code \<and> generate_tokens env code = Inl e \<and>
    exc_class e \<noteq> NonException \<longrightarrow>
      summarize_file env p = Inr (''Error summarizing '' @ p @ '': '' @ exc_str e)) \<and>
   (read_file env p = Inr code \<and> generate_tokens env code = Inr toks \<and>
    ast_parse env (reduce_tokens toks) = Inl e \<and> exc_class e = OtherException \<longrightarrow>
      summarize_file env p = Inr (''Error summarizing '' @ p @ '': '' @ exc_str e)) \<and>
   (read_file env p = Inr code \<and> generate_tokens env code = Inr toks \<and>
    ast_parse env (reduce_tokens toks) = Inl e \<and> exc_class e = SyntaxError \<longrightarrow>
      summarize_file env p = Inr (''Error in parsing code: '' @ exc_str e)) \<and>
   (read_file env p = Inr code \<and> generate_tokens env code = Inr toks \<and>
    ast_parse env (reduce_tokens toks) = Inr tree \<and> visit_fault env tree = Some e \<and>
    exc_class e = OtherException \<longrightarrow>
      summarize_file env p = Inr (''Error summarizing '' @ p @ '': '' @ exc_str e)) \<and>
   (read_file env p = Inr code \<and> generate_tokens env code = Inr toks \<and>
    ast_parse env (reduce_tokens toks) = Inr tree \<and> visit_fault env tree = None \<longrightarrow>
      summarize_file env p = Inr (get_summary (visit_Module tree)))"
proof -
  note stages = summarize_file_def compress_code_def tokenize_code_def
    summarize_code_with_ast_def parse_and_visit_def
  have crossing: "exc_class e = NonException" if "summarize_file env p = Inl e"
    using that unfolding summarize_file_def
    by (auto split: sum.splits if_splits)
  have reading: "summarize_file env p = Inr (''Error summarizing '' @ p @ '': '' @ exc_str e)"
    if "read_file env p = Inl e" and "exc_class e \<noteq> NonException"
    using that by (simp add: summarize_file_def)
  have tokenizing:
    "summarize_file env p = Inr (''Error summarizing '' @ p @ '': '' @ exc_str e)"
    if "read_file env p = Inr code" and "generate_tokens env code = Inl e"
      and "exc_class e \<noteq> NonException"
    using that by (simp add: summarize_file_def compress_code_def tokenize_code_def)
  have parsing_other:
    "summarize_file env p = Inr (''Error summarizing '' @ p @ '': '' @ exc_str e)"
    if "read_file env p = Inr code" and "generate_tokens env code = Inr toks"
      and "ast_parse env (reduce_tokens toks) = Inl e" and "exc_class e = OtherException"
    using that by (simp add: stages)
  have parsing_syntax:
    "summarize_file env p = Inr (''Error in parsing code: '' @ exc_str e)"
    if "read_file env p = Inr code" and "generate_tokens env code = Inr toks"
      and "ast_parse env (reduce_tokens toks) = Inl e" and "exc_class e = SyntaxError"
    using that by (simp add: stages)
  have visiting:
    "summarize_file env p = Inr (''Error summarizing '' @ p @ '': '' @ exc_str e)"
    if "read_file env p = Inr code" and "generate_tokens env code = Inr toks"
      and "ast_parse env (reduce_tokens toks) = Inr tree" and "visit_fault env tree = Some e"
      and "exc_class e = OtherException"
    using that by (simp add: stages)
  have success: "summarize_file env p = Inr (get_summary (visit_Module tree))"
    if "read_file env p = Inr code" and "generate_tokens env code = Inr toks"
      and "ast_parse env (reduce_tokens toks) = Inr tree" and "visit_fault env tree = None"
    using that by (simp add: stages)
  from crossing reading tokenizing parsing_other parsing_syntax visiting success
  show ?thesis by blast
qed

text \<open>
  The theorem at one environment for each of its cases; the third is the input
  \<^verbatim>\<open>def f(:\<close> of the specification.
\<close>

theorem summarize_file_outcome_witness:
  "summarize_file interrupt_env ''a.py'' = Inl keyboard_interrupt \<and>
   exc_class keyboard_interrupt = NonException \<and>
   summarize_file missing_env ''a.py'' =
     Inr (''Error summarizing a.py: [Errno 2] No such file or directory: 'a.py'' @ [CHR 0x27]) \<and>
   summarize_file unclosed_env ''a.py'' =
     Inr ''Error summarizing a.py: ('EOF in multi-line statement', (2, 0))'' \<and>
   summarize_file deep_env ''a.py'' =
     Inr ''Error summarizing a.py: maximum recursion depth exceeded during compilation'' \<and>
   summarize_file syntax_error_env ''a.py'' =
     Inr ''Error in parsing code: invalid syntax (<unknown>, line 1)'' \<and>
   summarize_file digits_env ''a.py'' =
     Inr ''Error summarizing a.py: Exceeds the limit (4300 digits) for integer string conversion'' \<and>
   summarize_file add_env ''a.py'' =
     Inr (''Function: add(a, b)'' @ [nl] @ ''  Body: return a + b'')"
proof -
  have i: "summarize_file interrupt_env ''a.py'' = Inl keyboard_interrupt"
    by code_simp
  have k: "exc_class keyboard_interrupt = NonException"
    using summarize_file_outcome [of interrupt_env "''a.py''" keyboard_interrupt] i by blast
  have m: "summarize_file missing_env ''a.py'' =
      Inr (''Error summarizing '' @ ''a.py'' @ '': '' @ exc_str not_found_error)"
    using summarize_file_outcome [of missing_env "''a.py''" not_found_error]
    by (simp add: missing_env_def not_found_error_def)
  have u: "summarize_file unclosed_env ''a.py'' =
      Inr (''Error summarizing '' @ ''a.py'' @ '': '' @ exc_str token_error)"
    using summarize_file_outcome [of unclosed_env "''a.py''" token_error "''def f(:''"]
    by (simp add: unclosed_env_def token_error_def)
  have d: "summarize_file deep_env ''a.py'' =
      Inr (''Error summarizing '' @ ''a.py'' @ '': '' @ exc_str recursion_error)"
    using summarize_file_outcome
      [of deep_env "''a.py''" recursion_error add_source add_tokens]
    by (simp add: deep_env_def recursion_error_def)
  have r: "reduce_tokens double_equals_tokens = ''x = = 1'' @ [nl]" by code_simp
  have s: "summarize_file syntax_error_env ''a.py'' =
      Inr (''Error in parsing code: '' @ exc_str syntax_error)"
    using summarize_file_outcome
      [of syntax_error_env "''a.py''" syntax_error "''x = = 1'' @ [nl]" double_equals_tokens] r
    by (simp add: syntax_error_env_def syntax_error_def)
  have v: "summarize_file digits_env ''a.py'' =
      Inr (''Error summarizing '' @ ''a.py'' @ '': '' @ exc_str digits_error)"
    using summarize_file_outcome
      [of digits_env "''a.py''" digits_error add_source add_tokens "[add_def]"]
    by (simp add: digits_env_def digits_error_def)
  have t: "reduce_tokens add_tokens = add_source" by code_simp
  have g: "get_summary (visit_Module [add_def]) =
      ''Function: add(a, b)'' @ [nl] @ ''  Body: return a + b''"
    by code_simp
  have a: "summarize_file add_env ''a.py'' = Inr (get_summary (visit_Module [add_def]))"
    using summarize_file_outcome
      [of add_env "''a.py''" _ add_source add_tokens "[add_def]"] t
    by (simp add: add_env_def)
  show ?thesis
    using i k m u d s v a g
    by (simp add: not_found_error_def token_error_def recursion_error_def syntax_error_def
        digits_error_def)
qed

section \<open>The lexical reducer: layout\<close>

lemma advance_no_nl: "nl \<notin> set cs \<Longrightarrow> advance p cs = (fst p, snd p + int (length cs))"
  by (induction cs arbitrary: p) auto

lemma advance_col_nonneg: "0 \<le> snd p \<Longrightarrow> 0 \<le> snd (advance p cs)"
  by (induction cs arbitrary: p) auto

lemma advance_row_mono: "fst p \<le> fst (advance p cs)"
proof (induction cs arbitrary: p)
  case Nil
  show ?case by simp
next
  case (Cons c cs)
  have "fst p \<le> fst (if c = nl then (fst p + 1, 0) else (fst p, snd p + 1))" by simp
  also have "\<dots> \<le> fst (advance (if c = nl then (fst p + 1, 0) else (fst p, snd p + 1)) cs)"
    by (rule Cons.IH)
  finally show ?case by simp
qed

lemma advance_snoc: "advance p (cs @ [c]) = advance (advance p cs) [c]"
  by (induction cs arbitrary: p) auto

lemma advance_ends_nl:
  assumes "cs \<noteq> []" and "last cs = nl"
  shows "snd (advance p cs) = 0" and "fst p < fst (advance p cs)"
proof -
  from assms obtain bs where cs: "cs = bs @ [nl]"
    by (metis append_butlast_last_id)
  have "advance p cs = (fst (advance p bs) + 1, 0)"
    unfolding cs advance_snoc by simp
  then show "snd (advance p cs) = 0" and "fst p < fst (advance p cs)"
    using advance_row_mono [of p bs] by simp_all
qed

lemma reduce_step_dropped: "is_dropped (prev_toktype s) t \<Longrightarrow> reduce_step s t = s"
  by (auto simp add: is_dropped_def reduce_step_def)

lemma reduce_step_kept_text:
  assumes kept: "\<not> is_dropped (prev_toktype s) t"
    and row: "srow t = fst p" and col: "snd p \<le> scol t" and ag: "agree s p"
  shows "text_of (reduce_step s t) =
           text_of s @ replicate (owed s p + nat (scol t - snd p)) CHR '' '' @ tok_string t"
    and "prev_toktype (reduce_step s t) = tok_type t"
    and "last_lineno (reduce_step s t) = erow t"
    and "last_col (reduce_step s t) = ecol t"
proof -
  from kept have k: "tok_type t \<noteq> COMMENT"
    "tok_type t = STRING \<longrightarrow> prev_toktype s \<noteq> INDENT"
    by (auto simp add: is_dropped_def)
  show "prev_toktype (reduce_step s t) = tok_type t"
    and "last_lineno (reduce_step s t) = erow t"
    and "last_col (reduce_step s t) = ecol t"
    using k by (auto simp add: reduce_step_def Let_def)
  define c1 where "c1 = (if srow t > last_lineno s then 0 else last_col s)"
  have out: "output_buf (reduce_step s t) =
      output_buf s @ (if scol t > c1 then [replicate (nat (scol t - c1)) CHR '' ''] else []) @
      [tok_string t]"
    using k by (auto simp add: reduce_step_def Let_def c1_def)
  have pad: "nat (scol t - c1) = owed s p + nat (scol t - snd p)"
    using ag row col by (auto simp add: agree_def owed_def c1_def)
  have "concat (if scol t > c1 then [replicate (nat (scol t - c1)) CHR '' ''] else []) =
      replicate (nat (scol t - c1)) CHR '' ''"
    by simp
  then show "text_of (reduce_step s t) =
      text_of s @ replicate (owed s p + nat (scol t - snd p)) CHR '' '' @ tok_string t"
    unfolding text_of_def out pad [symmetric] by simp
qed

lemma agree_after_kept:
  assumes "end_ok t" and "0 \<le> scol t"
    and "last_lineno s' = erow t" and "last_col s' = ecol t"
  shows "agree s' (next_pos t)" and "owed s' (next_pos t) = 0"
proof -
  consider (made_up) "made_up_newline t"
    | (plain) "\<not> made_up_newline t"
        "(erow t, ecol t) = advance (srow t, scol t) (tok_string t)"
    | (line_end) "\<not> made_up_newline t" "tok_string t \<noteq> []" "last (tok_string t) = nl"
        "erow t = srow t" "ecol t = scol t + int (length (tok_string t))"
    using assms(1) by (auto simp add: end_ok_def)
  then have "agree s' (next_pos t) \<and> owed s' (next_pos t) = 0"
  proof cases
    case made_up
    then show ?thesis
      using assms by (simp add: next_pos_def agree_def owed_def made_up_newline_def)
  next
    case plain
    then have e: "advance (srow t, scol t) (tok_string t) = (erow t, ecol t)" by simp
    have "0 \<le> snd (advance (srow t, scol t) (tok_string t))"
      using assms(2) by (simp add: advance_col_nonneg)
    then have "0 \<le> ecol t" unfolding e by simp
    then show ?thesis
      using plain(1) assms(3,4) by (simp add: agree_def owed_def next_pos_def e)
  next
    case line_end
    have "snd (advance (srow t, scol t) (tok_string t)) = 0"
      and "srow t < fst (advance (srow t, scol t) (tok_string t))"
      using advance_ends_nl [OF line_end(2,3), of "(srow t, scol t)"] by simp_all
    then show ?thesis
      using line_end assms by (simp add: agree_def owed_def next_pos_def)
  qed
  then show "agree s' (next_pos t)" and "owed s' (next_pos t) = 0" by simp_all
qed

lemma agree_after_dropped:
  assumes "tok_string t \<noteq> []" and "nl \<notin> set (tok_string t)"
    and "srow t = fst p" and "snd p \<le> scol t" and "agree s p"
  shows "agree s (next_pos t)"
    and "owed s (next_pos t) = owed s p + nat (scol t - snd p) + length (tok_string t)"
proof -
  have np: "next_pos t = (fst p, scol t + int (length (tok_string t)))"
    using assms(1-3) by (simp add: next_pos_def made_up_newline_def advance_no_nl)
  show "agree s (next_pos t)"
    using assms(4,5) unfolding np by (auto simp add: agree_def)
  show "owed s (next_pos t) = owed s p + nat (scol t - snd p) + length (tok_string t)"
    using assms(4,5) unfolding np by (auto simp add: agree_def owed_def)
qed

lemma overwrite_append:
  "length m1 = length s1 \<Longrightarrow>
   overwrite (m1 @ m2) (s1 @ s2) = overwrite m1 s1 @ overwrite m2 s2"
  by (simp add: overwrite_def)

lemma overwrite_False:
  "length g = n \<Longrightarrow> overwrite (replicate n False) g = replicate n CHR '' ''"
  by (induction g arbitrary: n) (auto simp add: overwrite_def)

lemma overwrite_True: "length g = n \<Longrightarrow> overwrite (replicate n True) g = g"
  by (induction g arbitrary: n) (auto simp add: overwrite_def)

lemma final_pos_Cons: "final_pos p (t # ts) = final_pos (next_pos t) ts"
  by (simp add: final_pos_def)

lemma last_kept_Cons:
  "last_kept prev (t # ts) =
     (if ts = [] then \<not> is_dropped prev t else last_kept (tracker_after prev t) ts)"
  by (cases ts) simp_all

text \<open>
  The text of a source whose first \<open>n\<close> characters are a gap and whose next characters
  are the text of a token.
\<close>

lemma split_source:
  assumes "n + length w \<le> length src" and "take (length w) (drop n src) = w"
  shows "src = take n src @ w @ drop (n + length w) src" and "length (take n src) = n"
proof -
  have "drop n src = take (length w) (drop n src) @ drop (length w) (drop n src)"
    by (metis append_take_drop_id)
  then have "drop n src = w @ drop (n + length w) src"
    using assms(2) by (metis drop_drop add.commute)
  then show "src = take n src @ w @ drop (n + length w) src"
    by (metis append_take_drop_id)
  show "length (take n src) = n" using assms(1) by simp
qed
text \<open>
  The loop against the text. Run from a state that agrees with the position the text has
  reached, over tokens laid out in the rest of the text, the loop appends the rest of
  the text with every character outside a kept token replaced by a space; what is read
  after the last kept token is still owed.
\<close>

lemma reduce_scan:
  "laid_out gap_ok p src toks \<Longrightarrow> agree s p \<Longrightarrow> drops_in_line (prev_toktype s) toks \<Longrightarrow>
   text_of (foldl reduce_step s toks) @
     replicate (owed (foldl reduce_step s toks) (final_pos p toks)) CHR '' '' =
   text_of s @ replicate (owed s p) CHR '' '' @
     overwrite (kept_mask (prev_toktype s) p toks) src \<and>
   (last_kept (prev_toktype s) toks \<longrightarrow>
      owed (foldl reduce_step s toks) (final_pos p toks) = 0)"
proof (induction toks arbitrary: s p src)
  case Nil
  then show ?case by (simp add: final_pos_def overwrite_def)
next
  case (Cons t ts)
  define n where "n = nat (scol t - snd p)"
  define w where "w = tok_string t"
  define rest where "rest = drop (n + length w) src"
  define prev where "prev = prev_toktype s"
  from Cons.prems(1) have row: "srow t = fst p" and col: "snd p \<le> scol t"
    and len: "n + length w \<le> length src" and tok: "take (length w) (drop n src) = w"
    and e: "end_ok t" and lay: "laid_out gap_ok (next_pos t) rest ts"
    by (simp_all add: n_def w_def rest_def)
  from split_source [OF len tok] have src: "src = take n src @ w @ rest"
    and gap: "length (take n src) = n"
    by (simp_all add: rest_def)
  have marks: "overwrite (kept_mask prev p (t # ts)) src =
      replicate n CHR '' '' @ overwrite (replicate (length w) (\<not> is_dropped prev t)) w @
      overwrite (kept_mask (tracker_after prev t) (next_pos t) ts) rest"
  proof -
    have "overwrite (kept_mask prev p (t # ts)) (take n src @ w @ rest) =
        overwrite (replicate n False) (take n src) @
        overwrite (replicate (length w) (\<not> is_dropped prev t)) w @
        overwrite (kept_mask (tracker_after prev t) (next_pos t) ts) rest"
      using gap by (simp add: overwrite_append n_def w_def)
    then show ?thesis using src overwrite_False [OF gap] by simp
  qed
  from Cons.prems(3) have rest_drops: "drops_in_line (tracker_after prev t) ts"
    by (simp add: prev_def)
  show ?case
  proof (cases "is_dropped prev t")
    case True
    with Cons.prems(3) have w: "w \<noteq> []" "nl \<notin> set w"
      by (simp_all add: prev_def w_def)
    have same: "reduce_step s t = s"
      using True by (simp add: reduce_step_dropped prev_def)
    have tr: "tracker_after prev t = prev"
      using True by (simp add: tracker_after_def)
    from agree_after_dropped [of t p s] w row col Cons.prems(2)
    have ag: "agree s (next_pos t)"
      and ow: "owed s (next_pos t) = owed s p + n + length w"
      by (simp_all add: w_def n_def)
    from Cons.IH [OF lay ag] rest_drops tr
    have ih: "text_of (foldl reduce_step s ts) @
        replicate (owed (foldl reduce_step s ts) (final_pos (next_pos t) ts)) CHR '' '' =
        text_of s @ replicate (owed s (next_pos t)) CHR '' '' @
          overwrite (kept_mask prev (next_pos t) ts) rest"
      and ih_last: "last_kept prev ts \<longrightarrow>
        owed (foldl reduce_step s ts) (final_pos (next_pos t) ts) = 0"
      by (simp_all add: prev_def)
    have blanks: "overwrite (replicate (length w) (\<not> is_dropped prev t)) w =
        replicate (length w) CHR '' ''"
      using True by (simp add: overwrite_False)
    have "text_of s @ replicate (owed s (next_pos t)) CHR '' '' @
          overwrite (kept_mask prev (next_pos t) ts) rest =
        text_of s @ replicate (owed s p) CHR '' '' @
          overwrite (kept_mask prev p (t # ts)) src"
      unfolding marks blanks ow tr by (simp add: replicate_add)
    with ih have first: "text_of (foldl reduce_step s (t # ts)) @
        replicate (owed (foldl reduce_step s (t # ts)) (final_pos p (t # ts))) CHR '' '' =
        text_of s @ replicate (owed s p) CHR '' '' @
          overwrite (kept_mask prev p (t # ts)) src"
      by (simp add: same final_pos_Cons)
    have second: "last_kept prev (t # ts) \<longrightarrow>
        owed (foldl reduce_step s (t # ts)) (final_pos p (t # ts)) = 0"
      using True ih_last tr by (simp add: last_kept_Cons same final_pos_Cons)
    from first second show ?thesis by (simp add: prev_def)
  next
    case False
    define s1 where "s1 = reduce_step s t"
    from False have kept: "\<not> is_dropped (prev_toktype s) t" by (simp add: prev_def)
    from reduce_step_kept_text [OF kept row col Cons.prems(2)]
    have tx1: "text_of s1 = text_of s @ replicate (owed s p + n) CHR '' '' @ w"
      and pv: "prev_toktype s1 = tok_type t"
      and ll: "last_lineno s1 = erow t" and lc: "last_col s1 = ecol t"
      by (simp_all add: s1_def n_def w_def)
    have tr: "tracker_after prev t = tok_type t"
      using False by (simp add: tracker_after_def)
    from Cons.prems(2) col have "0 \<le> scol t" by (simp add: agree_def)
    from agree_after_kept [OF e this ll lc]
    have ag: "agree s1 (next_pos t)" and ow: "owed s1 (next_pos t) = 0" by simp_all
    from Cons.IH [OF lay ag] rest_drops tr pv
    have ih: "text_of (foldl reduce_step s1 ts) @
        replicate (owed (foldl reduce_step s1 ts) (final_pos (next_pos t) ts)) CHR '' '' =
        text_of s1 @ replicate (owed s1 (next_pos t)) CHR '' '' @
          overwrite (kept_mask (tok_type t) (next_pos t) ts) rest"
      and ih_last: "last_kept (tok_type t) ts \<longrightarrow>
        owed (foldl reduce_step s1 ts) (final_pos (next_pos t) ts) = 0"
      by simp_all
    have same: "overwrite (replicate (length w) (\<not> is_dropped prev t)) w = w"
      using False by (simp add: overwrite_True)
    have "text_of s1 @ replicate (owed s1 (next_pos t)) CHR '' '' @
          overwrite (kept_mask (tok_type t) (next_pos t) ts) rest =
        text_of s @ replicate (owed s p) CHR '' '' @
          overwrite (kept_mask prev p (t # ts)) src"
      unfolding marks same ow tr tx1 by (simp add: replicate_add)
    with ih have first: "text_of (foldl reduce_step s (t # ts)) @
        replicate (owed (foldl reduce_step s (t # ts)) (final_pos p (t # ts))) CHR '' '' =
        text_of s @ replicate (owed s p) CHR '' '' @
          overwrite (kept_mask prev p (t # ts)) src"
      by (simp add: s1_def final_pos_Cons)
    have second: "last_kept prev (t # ts) \<longrightarrow>
        owed (foldl reduce_step s (t # ts)) (final_pos p (t # ts)) = 0"
      using ih_last tr ow
      by (cases "ts = []") (simp_all add: last_kept_Cons s1_def final_pos_Cons final_pos_def)
    from first second show ?thesis by (simp add: prev_def)
  qed
qed

text \<open>From the start of the input.\<close>

lemma reduce_tokens_overwrite:
  assumes "laid_out gap_ok (1, 0) src toks" and "drops_in_line INDENT toks"
    and "last_kept INDENT toks"
  shows "reduce_tokens toks = overwrite (kept_mask INDENT (1, 0) toks) src"
proof -
  have ag: "agree reducer_init (1, 0)" by (simp add: agree_def reducer_init_def)
  have pv: "prev_toktype reducer_init = INDENT" by (simp add: reducer_init_def)
  have ow: "owed reducer_init (1, 0) = 0" by (simp add: owed_def reducer_init_def)
  have tx: "text_of reducer_init = []" by (simp add: text_of_def reducer_init_def)
  have d: "drops_in_line (prev_toktype reducer_init) toks"
    and l: "last_kept (prev_toktype reducer_init) toks"
    using assms(2,3) pv by simp_all
  note scan = reduce_scan [OF assms(1) ag d]
  from scan l have z: "owed (foldl reduce_step reducer_init toks) (final_pos (1, 0) toks) = 0"
    by blast
  from scan have "text_of (foldl reduce_step reducer_init toks) @
      replicate (owed (foldl reduce_step reducer_init toks) (final_pos (1, 0) toks)) CHR '' '' =
      text_of reducer_init @ replicate (owed reducer_init (1, 0)) CHR '' '' @
        overwrite (kept_mask (prev_toktype reducer_init) (1, 0) toks) src"
    by blast
  then have "text_of (foldl reduce_step reducer_init toks) =
      overwrite (kept_mask INDENT (1, 0) toks) src"
    unfolding z ow tx pv by simp
  then show ?thesis by (simp add: reduce_tokens_def reduce_loop_def text_of_def)
qed
lemma undropped_drops_in_line: "undropped prev toks \<Longrightarrow> drops_in_line prev toks"
  by (induction toks arbitrary: prev) (simp_all add: tracker_after_def)

lemma undropped_last_kept: "undropped prev toks \<Longrightarrow> toks \<noteq> [] \<Longrightarrow> last_kept prev toks"
proof (induction toks arbitrary: prev)
  case Nil
  then show ?case by simp
next
  case (Cons t ts)
  then show ?case by (cases ts) (simp_all add: tracker_after_def)
qed

lemma spaces_replicate: "list_all is_space g \<Longrightarrow> replicate (length g) CHR '' '' = g"
  by (induction g) (simp_all add: is_space_def)

lemma overwrite_undropped:
  "laid_out is_space p src toks \<Longrightarrow> undropped prev toks \<Longrightarrow>
   overwrite (kept_mask prev p toks) src = src"
proof (induction toks arbitrary: prev p src)
  case Nil
  then show ?case by (simp add: overwrite_def)
next
  case (Cons t ts)
  define n where "n = nat (scol t - snd p)"
  define w where "w = tok_string t"
  define rest where "rest = drop (n + length w) src"
  from Cons.prems(1) have len: "n + length w \<le> length src"
    and tok: "take (length w) (drop n src) = w"
    and sp: "list_all is_space (take n src)"
    and lay: "laid_out is_space (next_pos t) rest ts"
    by (simp_all add: n_def w_def rest_def)
  from Cons.prems(2) have kept: "\<not> is_dropped prev t" and rest_kept: "undropped (tok_type t) ts"
    by simp_all
  from split_source [OF len tok] have src: "src = take n src @ w @ rest"
    and gap: "length (take n src) = n"
    by (simp_all add: rest_def)
  have "overwrite (kept_mask prev p (t # ts)) (take n src @ w @ rest) =
      overwrite (replicate n False) (take n src) @ overwrite (replicate (length w) True) w @
      overwrite (kept_mask (tok_type t) (next_pos t) ts) rest"
    using gap kept by (simp add: overwrite_append n_def w_def tracker_after_def)
  also have "overwrite (replicate n False) (take n src) = take n src"
    using overwrite_False [OF gap] spaces_replicate [OF sp] gap by simp
  also have "overwrite (replicate (length w) True) w = w"
    by (simp add: overwrite_True)
  also have "overwrite (kept_mask (tok_type t) (next_pos t) ts) rest = rest"
    by (rule Cons.IH [OF lay rest_kept])
  finally show ?case using src by simp
qed

lemma reduce_tokens_undropped:
  assumes "laid_out is_space (1, 0) src toks" and "undropped INDENT toks"
  shows "reduce_tokens toks = src"
proof (cases "toks = []")
  case True
  with assms(1) show ?thesis
    by (simp add: reduce_tokens_def reduce_loop_def reducer_init_def)
next
  case False
  from reduce_tokens_overwrite [OF assms(1) undropped_drops_in_line [OF assms(2)]
      undropped_last_kept [OF assms(2) False]]
  show ?thesis using overwrite_undropped [OF assms] by simp
qed

lemma blank_gap_marks:
  "list_all is_blank g \<Longrightarrow>
   list_all2 (\<lambda>keep c. keep \<or> is_blank c) (replicate (length g) False) g"
  by (induction g) simp_all

lemma token_marks: "list_all2 (\<lambda>keep c. keep \<or> is_blank c) (replicate (length w) True) w"
  by (induction w) simp_all

lemma kept_mask_undropped:
  "laid_out is_blank p src toks \<Longrightarrow> undropped prev toks \<Longrightarrow>
   list_all2 (\<lambda>keep c. keep \<or> is_blank c) (kept_mask prev p toks) src"
proof (induction toks arbitrary: prev p src)
  case Nil
  then show ?case by simp
next
  case (Cons t ts)
  define n where "n = nat (scol t - snd p)"
  define w where "w = tok_string t"
  define rest where "rest = drop (n + length w) src"
  from Cons.prems(1) have len: "n + length w \<le> length src"
    and tok: "take (length w) (drop n src) = w"
    and sp: "list_all is_blank (take n src)"
    and lay: "laid_out is_blank (next_pos t) rest ts"
    by (simp_all add: n_def w_def rest_def)
  from Cons.prems(2) have kept: "\<not> is_dropped prev t" and rest_kept: "undropped (tok_type t) ts"
    by simp_all
  from split_source [OF len tok] have src: "src = take n src @ w @ rest"
    and gap: "length (take n src) = n"
    by (simp_all add: rest_def)
  have m: "kept_mask prev p (t # ts) =
      replicate n False @ replicate (length w) True @ kept_mask (tok_type t) (next_pos t) ts"
    using kept by (simp add: n_def w_def tracker_after_def)
  have "list_all2 (\<lambda>keep c. keep \<or> is_blank c) (replicate n False) (take n src)"
    using blank_gap_marks [OF sp] gap by simp
  moreover note token_marks [of w]
  moreover note Cons.IH [OF lay rest_kept]
  ultimately have "list_all2 (\<lambda>keep c. keep \<or> is_blank c)
      (replicate n False @ replicate (length w) True @
       kept_mask (tok_type t) (next_pos t) ts) (take n src @ w @ rest)"
    by (intro list_all2_appendI)
  then show ?case using m src by simp
qed

text \<open>
  C6, as stated, at the line \<^verbatim>\<open>x = 1\<close> written with tabs: the text has no comment and no
  string literal, its tokens lie in it where they say, and the output has a space where
  the text has a tab.
\<close>

theorem tab_counterexample:
  "laid_out is_blank (1, 0) tab_source tab_tokens \<and>
   undropped INDENT tab_tokens \<and>
   reduce_tokens tab_tokens = ''x = 1'' @ [nl] \<and>
   reduce_tokens tab_tokens \<noteq> tab_source"
  by code_simp

text \<open>
  C6, amended. Take a source text with no comment and no docstring-shaped string literal
  (no string literal at the start of the input or just after an indent token) that its
  tokens lay out with spaces: read from row 1, column 0, the text is the texts of the
  tokens, in order, and nothing else but space characters, each token standing on the
  row the text has reached, at the column it reports and after spaces only, and ending
  where the rules of the tokenizer's positions put its end. (So no tab or form feed
  stands between tokens, no line is continued with a backslash, and nothing follows the
  last token, not even the spaces of a last line without a line feed.) Then the output
  of the reducer equals the input exactly, and reducing the output again changes nothing.
  When, in such a layout, the characters between the tokens are blanks of any kind
  (spaces, tabs, form feeds) instead of spaces only, the output is the input with each
  character between tokens replaced by one space.
\<close>

theorem reducer_identity:
  "(generate_tokens env src = Inr toks \<and> laid_out is_space (1, 0) src toks \<and>
    undropped INDENT toks \<longrightarrow>
      reduce_tokens toks = src \<and> tokenize_code env src = Inr src \<and>
      tokenize_code env (reduce_tokens toks) = Inr (reduce_tokens toks)) \<and>
   (laid_out is_blank (1, 0) src toks \<and> undropped INDENT toks \<longrightarrow>
      reduce_tokens toks = overwrite (kept_mask INDENT (1, 0) toks) src \<and>
      length (reduce_tokens toks) = length src \<and>
      list_all2 (\<lambda>keep c. keep \<or> is_blank c) (kept_mask INDENT (1, 0) toks) src)"
proof -
  have spaces: "reduce_tokens toks = src \<and> tokenize_code env src = Inr src \<and>
      tokenize_code env (reduce_tokens toks) = Inr (reduce_tokens toks)"
    if g: "generate_tokens env src = Inr toks" and l: "laid_out is_space (1, 0) src toks"
      and u: "undropped INDENT toks"
  proof -
    have same: "reduce_tokens toks = src"
      by (rule reduce_tokens_undropped [OF l u])
    then have "tokenize_code env src = Inr src"
      using g by (simp add: tokenize_code_def)
    with same show ?thesis by simp
  qed
  have blanks: "reduce_tokens toks = overwrite (kept_mask INDENT (1, 0) toks) src \<and>
      length (reduce_tokens toks) = length src \<and>
      list_all2 (\<lambda>keep c. keep \<or> is_blank c) (kept_mask INDENT (1, 0) toks) src"
    if l: "laid_out is_blank (1, 0) src toks" and u: "undropped INDENT toks"
  proof -
    have m: "list_all2 (\<lambda>keep c. keep \<or> is_blank c) (kept_mask INDENT (1, 0) toks) src"
      by (rule kept_mask_undropped [OF l u])
    have out: "reduce_tokens toks = overwrite (kept_mask INDENT (1, 0) toks) src"
    proof (cases "toks = []")
      case True
      with l show ?thesis
        by (simp add: reduce_tokens_def reduce_loop_def reducer_init_def overwrite_def)
    next
      case False
      show ?thesis
        by (rule reduce_tokens_overwrite [OF l undropped_drops_in_line [OF u]
              undropped_last_kept [OF u False]])
    qed
    have "length (overwrite (kept_mask INDENT (1, 0) toks) src) = length src"
      using list_all2_lengthD [OF m] by (simp add: overwrite_def)
    with out m show ?thesis by simp
  qed
  from spaces blanks show ?thesis by blast
qed

text \<open>
  The theorem at the function \<^verbatim>\<open>add\<close>, laid out with spaces, and at the line
  \<^verbatim>\<open>x = 1\<close> written with tabs.
\<close>

theorem reducer_identity_witness:
  "generate_tokens add_env add_source = Inr add_tokens \<and>
   laid_out is_space (1, 0) add_source add_tokens \<and> undropped INDENT add_tokens \<and>
   reduce_tokens add_tokens = add_source \<and>
   tokenize_code add_env add_source = Inr add_source \<and>
   laid_out is_blank (1, 0) tab_source tab_tokens \<and> undropped INDENT tab_tokens \<and>
   reduce_tokens tab_tokens = overwrite (kept_mask INDENT (1, 0) tab_tokens) tab_source \<and>
   overwrite (kept_mask INDENT (1, 0) tab_tokens) tab_source = ''x = 1'' @ [nl]"
proof -
  have g: "generate_tokens add_env add_source = Inr add_tokens"
    by (simp add: add_env_def)
  have l: "laid_out is_space (1, 0) add_source add_tokens" by code_simp
  have u: "undropped INDENT add_tokens" by code_simp
  have l': "laid_out is_blank (1, 0) tab_source tab_tokens" by code_simp
  have u': "undropped INDENT tab_tokens" by code_simp
  have v: "overwrite (kept_mask INDENT (1, 0) tab_tokens) tab_source = ''x = 1'' @ [nl]"
    by code_simp
  have a: "reduce_tokens add_tokens = add_source"
    and b: "tokenize_code add_env add_source = Inr add_source"
    using reducer_identity [of add_env add_source add_tokens] g l u by blast+
  have c: "reduce_tokens tab_tokens = overwrite (kept_mask INDENT (1, 0) tab_tokens) tab_source"
    using reducer_identity [of _ tab_source tab_tokens] l' u' by blast
  from g l u a b l' u' c v show ?thesis by blast
qed

text \<open>
  A last line of one space without a line feed has no token: the tokens of
  \<^verbatim>\<open>x = 1\<close> followed by such a line are those of \<^verbatim>\<open>x = 1\<close> alone, they do not lay
  the text out, and the space is not in the output.
\<close>

lemma trailing_space_example:
  "\<not> laid_out is_space (1, 0) (''x = 1'' @ [nl] @ '' '') tab_tokens \<and>
   laid_out is_space (1, 0) (''x = 1'' @ [nl]) tab_tokens \<and>
   reduce_tokens tab_tokens = ''x = 1'' @ [nl]"
  by code_simp

subsection \<open>Comments\<close>

lemma no_nl_pattern:
  "nl \<notin> set xs \<Longrightarrow>
   map (\<lambda>c. c = nl) (replicate (length xs) CHR '' '') = map (\<lambda>c. c = nl) xs"
  by (induction xs) auto

lemma blank_no_nl: "list_all is_blank g \<Longrightarrow> nl \<notin> set g"
  by (induction g) (auto simp add: is_blank_def)

lemma overwrite_pattern:
  "laid_out is_blank p src toks \<Longrightarrow> drops_in_line prev toks \<Longrightarrow>
   length (kept_mask prev p toks) = length src \<and>
   map (\<lambda>c. c = nl) (overwrite (kept_mask prev p toks) src) = map (\<lambda>c. c = nl) src"
proof (induction toks arbitrary: prev p src)
  case Nil
  then show ?case by (simp add: overwrite_def)
next
  case (Cons t ts)
  define n where "n = nat (scol t - snd p)"
  define w where "w = tok_string t"
  define rest where "rest = drop (n + length w) src"
  from Cons.prems(1) have len: "n + length w \<le> length src"
    and tok: "take (length w) (drop n src) = w"
    and sp: "list_all is_blank (take n src)"
    and lay: "laid_out is_blank (next_pos t) rest ts"
    by (simp_all add: n_def w_def rest_def)
  from Cons.prems(2) have rest_drops: "drops_in_line (tracker_after prev t) ts"
    and line: "is_dropped prev t \<Longrightarrow> nl \<notin> set w"
    by (simp_all add: w_def)
  from split_source [OF len tok] have src: "src = take n src @ w @ rest"
    and gap: "length (take n src) = n"
    by (simp_all add: rest_def)
  note ih = Cons.IH [OF lay rest_drops]
  have parts: "overwrite (kept_mask prev p (t # ts)) (take n src @ w @ rest) =
      replicate n CHR '' '' @ overwrite (replicate (length w) (\<not> is_dropped prev t)) w @
      overwrite (kept_mask (tracker_after prev t) (next_pos t) ts) rest"
    using gap overwrite_False [OF gap] by (simp add: overwrite_append n_def w_def)
  have g: "map (\<lambda>c. c = nl) (replicate n CHR '' '') = map (\<lambda>c. c = nl) (take n src)"
    using no_nl_pattern [OF blank_no_nl [OF sp]] gap by simp
  have k: "map (\<lambda>c. c = nl) (overwrite (replicate (length w) (\<not> is_dropped prev t)) w) =
      map (\<lambda>c. c = nl) w"
  proof (cases "is_dropped prev t")
    case True
    have "map (\<lambda>c. c = nl) (overwrite (replicate (length w) False) w) =
        map (\<lambda>c. c = nl) (replicate (length w) CHR '' '')"
      by (simp add: overwrite_False)
    also have "\<dots> = map (\<lambda>c. c = nl) w"
      by (rule no_nl_pattern [OF line [OF True]])
    finally show ?thesis using True by simp
  next
    case False
    then show ?thesis by (simp add: overwrite_True)
  qed
  have "map (\<lambda>c. c = nl) (overwrite (kept_mask prev p (t # ts)) (take n src @ w @ rest)) =
      map (\<lambda>c. c = nl) (take n src @ w @ rest)"
    unfolding parts using g k ih by simp
  moreover have "length (kept_mask prev p (t # ts)) = length (take n src @ w @ rest)"
    using ih gap by (simp add: n_def w_def)
  ultimately show ?case using src by simp
qed

lemma reduce_tokens_comment:
  "tok_type c = COMMENT \<Longrightarrow> reduce_tokens (pre @ c # post) = reduce_tokens (pre @ post)"
  by (simp add: reduce_tokens_def reduce_loop_def reduce_step_def)

lemma reduce_step_after_comment:
  assumes "tok_type c = COMMENT" and "\<not> is_dropped (prev_toktype s) t"
  shows "output_buf (reduce_step (reduce_step s c) t) =
           output_buf s @
           (if srow t > last_lineno s
            then (if 0 < scol t then [replicate (nat (scol t)) CHR '' ''] else [])
            else (if last_col s < scol t
                  then [replicate (nat (scol t - last_col s)) CHR '' ''] else [])) @
           [tok_string t]"
proof -
  from assms(2) have "tok_type t \<noteq> COMMENT"
    and "tok_type t = STRING \<longrightarrow> prev_toktype s \<noteq> INDENT"
    by (auto simp add: is_dropped_def)
  from reduce_step_kept(4) [OF this] show ?thesis
    using assms(1) by (simp add: reduce_step_comment)
qed

text \<open>
  C8. Removing a comment changes the column of no token on a later line; on the
  comment's own line the spacing before the next token is collapsed into one run of
  spaces. For every input, the loop is after a comment token as it was before it, so
  the tokens that follow are written as they would be without the comment token: a
  token that starts on a later row than the last kept token is written after exactly as
  many spaces as its column, and the next token on the row of the last kept token after
  one run of spaces that reaches from the end of that token, across the comment, to its
  start. And for every input whose tokens lie in the text where they say, separated
  within each line by blanks, and whose dropped tokens each lie within one line, the
  output is the input with every character outside the kept tokens overwritten by one
  space: as long as the input, with its line feeds at the same places, and with every
  character of a kept token where it was.
\<close>

theorem comment_overwritten:
  "(tok_type c = COMMENT \<longrightarrow>
      reduce_step s c = s \<and> reduce_tokens (pre @ c # post) = reduce_tokens (pre @ post)) \<and>
   (tok_type c = COMMENT \<and> \<not> is_dropped (prev_toktype s) t \<and> last_lineno s < srow t \<longrightarrow>
      output_buf (reduce_step (reduce_step s c) t) =
        output_buf s @ (if 0 < scol t then [replicate (nat (scol t)) CHR '' ''] else []) @
        [tok_string t]) \<and>
   (tok_type c = COMMENT \<and> \<not> is_dropped (prev_toktype s) t \<and> srow t \<le> last_lineno s \<longrightarrow>
      output_buf (reduce_step (reduce_step s c) t) =
        output_buf s @
        (if last_col s < scol t then [replicate (nat (scol t - last_col s)) CHR '' ''] else []) @
        [tok_string t]) \<and>
   (laid_out is_blank (1, 0) src toks \<and> drops_in_line INDENT toks \<and> last_kept INDENT toks \<longrightarrow>
      reduce_tokens toks = overwrite (kept_mask INDENT (1, 0) toks) src \<and>
      length (kept_mask INDENT (1, 0) toks) = length src \<and>
      length (reduce_tokens toks) = length src \<and>
      map (\<lambda>c. c = nl) (reduce_tokens toks) = map (\<lambda>c. c = nl) src)"
proof -
  have first: "reduce_step s c = s \<and>
      reduce_tokens (pre @ c # post) = reduce_tokens (pre @ post)"
    if "tok_type c = COMMENT"
    using that by (simp add: reduce_tokens_comment reduce_step_def)
  have later: "output_buf (reduce_step (reduce_step s c) t) =
        output_buf s @ (if 0 < scol t then [replicate (nat (scol t)) CHR '' ''] else []) @
        [tok_string t]"
    if "tok_type c = COMMENT" and "\<not> is_dropped (prev_toktype s) t" and "last_lineno s < srow t"
    using reduce_step_after_comment [OF that(1,2)] that(3) by simp
  have same: "output_buf (reduce_step (reduce_step s c) t) =
        output_buf s @
        (if last_col s < scol t then [replicate (nat (scol t - last_col s)) CHR '' ''] else []) @
        [tok_string t]"
    if "tok_type c = COMMENT" and "\<not> is_dropped (prev_toktype s) t" and "srow t \<le> last_lineno s"
    using reduce_step_after_comment [OF that(1,2)] that(3) by simp
  have whole: "reduce_tokens toks = overwrite (kept_mask INDENT (1, 0) toks) src \<and>
      length (kept_mask INDENT (1, 0) toks) = length src \<and>
      length (reduce_tokens toks) = length src \<and>
      map (\<lambda>c. c = nl) (reduce_tokens toks) = map (\<lambda>c. c = nl) src"
    if l: "laid_out is_blank (1, 0) src toks" and d: "drops_in_line INDENT toks"
      and k: "last_kept INDENT toks"
  proof -
    have out: "reduce_tokens toks = overwrite (kept_mask INDENT (1, 0) toks) src"
      by (rule reduce_tokens_overwrite [OF l d k])
    from overwrite_pattern [OF l d]
    have m: "length (kept_mask INDENT (1, 0) toks) = length src"
      and p: "map (\<lambda>c. c = nl) (overwrite (kept_mask INDENT (1, 0) toks) src) =
        map (\<lambda>c. c = nl) src"
      by simp_all
    have "length (overwrite (kept_mask INDENT (1, 0) toks) src) = length src"
      using m by (simp add: overwrite_def)
    with out m p show ?thesis by simp
  qed
  from first later same whole show ?thesis by blast
qed

text \<open>
  The theorem at the line \<^verbatim>\<open>x = 1  # c\<close>, where two spaces and a comment of three
  characters come out as five spaces before the line feed, and at a comment that stands
  alone on the second line, after two spaces.
\<close>

theorem comment_overwritten_witness:
  "tok_type comment_token = COMMENT \<and>
   reduce_tokens (before_comment_tokens @ comment_token # after_comment_tokens) =
     reduce_tokens (before_comment_tokens @ after_comment_tokens) \<and>
   \<not> is_dropped (prev_toktype (reduce_loop before_comment_tokens)) (tok NL [nl] 2 5 2 6) \<and>
   last_lineno (reduce_loop before_comment_tokens) < srow (tok NL [nl] 2 5 2 6) \<and>
   output_buf
     (reduce_step (reduce_step (reduce_loop before_comment_tokens) (tok COMMENT ''# c'' 2 2 2 5))
        (tok NL [nl] 2 5 2 6)) =
     output_buf (reduce_loop before_comment_tokens) @ [replicate 5 CHR '' '', [nl]] \<and>
   srow (tok NEWLINE [nl] 1 10 1 11) \<le> last_lineno (reduce_loop before_comment_tokens) \<and>
   output_buf
     (reduce_step (reduce_step (reduce_loop before_comment_tokens) comment_token)
        (tok NEWLINE [nl] 1 10 1 11)) =
     output_buf (reduce_loop before_comment_tokens) @ [replicate 5 CHR '' '', [nl]] \<and>
   laid_out is_blank (1, 0) comment_source
     (before_comment_tokens @ comment_token # after_comment_tokens) \<and>
   drops_in_line INDENT (before_comment_tokens @ comment_token # after_comment_tokens) \<and>
   last_kept INDENT (before_comment_tokens @ comment_token # after_comment_tokens) \<and>
   reduce_tokens (before_comment_tokens @ comment_token # after_comment_tokens) =
     ''x = 1'' @ replicate 5 CHR '' '' @ [nl] \<and>
   length (reduce_tokens (before_comment_tokens @ comment_token # after_comment_tokens)) =
     length comment_source"
proof -
  let ?toks = "before_comment_tokens @ comment_token # after_comment_tokens"
  let ?s = "reduce_loop before_comment_tokens"
  have c: "tok_type comment_token = COMMENT" "tok_type (tok COMMENT ''# c'' 2 2 2 5) = COMMENT"
    by code_simp+
  have st: "prev_toktype ?s = NUMBER" "last_lineno ?s = 1" "last_col ?s = 5"
    by code_simp+
  have k1: "\<not> is_dropped (prev_toktype ?s) (tok NL [nl] 2 5 2 6)"
    and k2: "\<not> is_dropped (prev_toktype ?s) (tok NEWLINE [nl] 1 10 1 11)"
    unfolding st by code_simp+
  have r1: "last_lineno ?s < srow (tok NL [nl] 2 5 2 6)"
    and r2: "srow (tok NEWLINE [nl] 1 10 1 11) \<le> last_lineno ?s"
    unfolding st by (simp_all add: tok_def)
  have l: "laid_out is_blank (1, 0) comment_source ?toks" by code_simp
  have d: "drops_in_line INDENT ?toks" by code_simp
  have k: "last_kept INDENT ?toks" by code_simp
  have v: "overwrite (kept_mask INDENT (1, 0) ?toks) comment_source =
      ''x = 1'' @ replicate 5 CHR '' '' @ [nl]"
    by code_simp
  have a: "reduce_tokens ?toks = reduce_tokens (before_comment_tokens @ after_comment_tokens)"
    using comment_overwritten [of comment_token _ before_comment_tokens after_comment_tokens] c
    by blast
  have p1: "scol (tok NL [nl] 2 5 2 6) = 5" "tok_string (tok NL [nl] 2 5 2 6) = [nl]"
    and p2: "scol (tok NEWLINE [nl] 1 10 1 11) = 10"
      "tok_string (tok NEWLINE [nl] 1 10 1 11) = [nl]"
    by (simp_all add: tok_def)
  have "output_buf (reduce_step (reduce_step ?s (tok COMMENT ''# c'' 2 2 2 5))
        (tok NL [nl] 2 5 2 6)) =
      output_buf ?s @
      (if 0 < scol (tok NL [nl] 2 5 2 6)
       then [replicate (nat (scol (tok NL [nl] 2 5 2 6))) CHR '' ''] else []) @
      [tok_string (tok NL [nl] 2 5 2 6)]"
    using comment_overwritten [of "tok COMMENT ''# c'' 2 2 2 5" ?s _ _ "tok NL [nl] 2 5 2 6"]
      c(2) k1 r1 by blast
  then have b: "output_buf (reduce_step (reduce_step ?s (tok COMMENT ''# c'' 2 2 2 5))
        (tok NL [nl] 2 5 2 6)) = output_buf ?s @ [replicate 5 CHR '' '', [nl]]"
    unfolding p1 by simp
  have "output_buf (reduce_step (reduce_step ?s comment_token)
        (tok NEWLINE [nl] 1 10 1 11)) =
      output_buf ?s @
      (if last_col ?s < scol (tok NEWLINE [nl] 1 10 1 11)
       then [replicate (nat (scol (tok NEWLINE [nl] 1 10 1 11) - last_col ?s)) CHR '' '']
       else []) @
      [tok_string (tok NEWLINE [nl] 1 10 1 11)]"
    using comment_overwritten [of comment_token ?s _ _ "tok NEWLINE [nl] 1 10 1 11"]
      c(1) k2 r2 by blast
  then have e: "output_buf (reduce_step (reduce_step ?s comment_token)
        (tok NEWLINE [nl] 1 10 1 11)) = output_buf ?s @ [replicate 5 CHR '' '', [nl]]"
    unfolding p2 st by simp
  have f1: "reduce_tokens ?toks = overwrite (kept_mask INDENT (1, 0) ?toks) comment_source"
    and f2: "length (reduce_tokens ?toks) = length comment_source"
    using comment_overwritten [of _ _ _ _ _ comment_source ?toks] l d k by blast+
  have f3: "reduce_tokens ?toks = ''x = 1'' @ replicate 5 CHR '' '' @ [nl]"
    using f1 v by (rule trans)
  from c(1) a k1 r1 b r2 e l d k f3 f2 show ?thesis by blast
qed

end
